theory Spec2Isabelle
  imports Complex_Main
begin

section \<open>Ruler tick spacing (drawing.py, draw_rulers_base)\<close>

text \<open>
  The candidate list and the target spacing of \<^verbatim>\<open>draw_rulers_base\<close>. Screen
  lengths are Python floats; they are modelled as reals.
\<close>

definition possible_intervals :: "int list" where
  "possible_intervals = [1, 2, 5, 10, 20, 50, 100, 200, 500, 1000, 2000, 5000, 10000]"

definition target_spacing_px :: real where
  "target_spacing_px = 80"

text \<open>
  The \<^verbatim>\<open>for interval in possible_intervals\<close> loop: the first candidate whose
  spacing reaches the target replaces the running value and the loop breaks; when the
  list is exhausted the running value is kept.
\<close>

fun pick_interval :: "real \<Rightarrow> int \<Rightarrow> int list \<Rightarrow> int" where
  "pick_interval ppu cur [] = cur"
| "pick_interval ppu cur (interval # rest) =
     (if real_of_int interval * ppu \<ge> target_spacing_px then interval
      else pick_interval ppu cur rest)"

definition major_interval_units :: "real \<Rightarrow> int" where
  "major_interval_units pixels_per_unit = pick_interval pixels_per_unit 100 possible_intervals"

section \<open>Settings as declared properties (properties.py)\<close>

text \<open>
  The values Python code hands around: what \<^verbatim>\<open>json.load\<close> produces (None, bool,
  int, float, str, list, dict) and what operators assign. Python floats are modelled
  as reals.
\<close>

datatype json =
    JNull
  | JBool bool
  | JInt int
  | JFloat real
  | JStr string
  | JList "json list"
  | JObj "(string \<times> json) list"

datatype py_error =
  TypeError | ValueError | AttributeError | IndexError | ZeroDivisionError | UnboundLocalError

text \<open>
  A property declaration of a \<^verbatim>\<open>PropertyGroup\<close>: its type and, for numbers, the
  declared \<^verbatim>\<open>min\<close> and \<^verbatim>\<open>max\<close>. A stored value is a \<open>pval\<close>.
\<close>

datatype prop_kind =
    BoolProperty
  | IntProperty "int option" "int option"
  | FloatProperty "real option" "real option"
  | EnumProperty "string list"
  | StringProperty
  | FloatVectorProperty nat real real

datatype pval = PBool bool | PInt int | PFloat real | PStr string | PVec "real list"

fun truthy :: "pval \<Rightarrow> bool" where
  "truthy (PBool b) = b"
| "truthy (PInt i) = (i \<noteq> 0)"
| "truthy (PFloat x) = (x \<noteq> 0)"
| "truthy (PStr s) = (s \<noteq> [])"
| "truthy (PVec xs) = (xs \<noteq> [])"

definition clamp_opt :: "('a::linorder) option \<Rightarrow> 'a option \<Rightarrow> 'a \<Rightarrow> 'a" where
  "clamp_opt lo hi x =
     (let y = (case hi of None \<Rightarrow> x | Some h \<Rightarrow> min h x)
      in case lo of None \<Rightarrow> y | Some l \<Rightarrow> max l y)"

fun as_number :: "json \<Rightarrow> real option" where
  "as_number (JInt i) = Some (real_of_int i)"
| "as_number (JFloat x) = Some x"
| "as_number (JBool b) = Some (if b then 1 else 0)"
| "as_number _ = None"

fun as_numbers :: "json list \<Rightarrow> real list option" where
  "as_numbers [] = Some []"
| "as_numbers (v # vs) =
     (case as_number v of None \<Rightarrow> None
      | Some x \<Rightarrow> (case as_numbers vs of None \<Rightarrow> None | Some xs \<Rightarrow> Some (x # xs)))"

text \<open>
  Assignment of a Python value to a declared property, as the host does it: the value
  is type-checked against the property's type (a mismatch raises), and a number is
  clamped to the declared range.
\<close>

fun coerce :: "prop_kind \<Rightarrow> json \<Rightarrow> py_error + pval" where
  "coerce BoolProperty (JBool b) = Inr (PBool b)"
| "coerce BoolProperty (JInt i) =
     (if i = 0 \<or> i = 1 then Inr (PBool (i = 1)) else Inl TypeError)"
| "coerce BoolProperty _ = Inl TypeError"
| "coerce (IntProperty lo hi) (JInt i) = Inr (PInt (clamp_opt lo hi i))"
| "coerce (IntProperty lo hi) (JBool b) = Inr (PInt (clamp_opt lo hi (if b then 1 else 0)))"
| "coerce (IntProperty lo hi) _ = Inl TypeError"
| "coerce (FloatProperty lo hi) v =
     (case as_number v of None \<Rightarrow> Inl TypeError
      | Some x \<Rightarrow> Inr (PFloat (clamp_opt lo hi x)))"
| "coerce (EnumProperty items) (JStr s) =
     (if s \<in> set items then Inr (PStr s) else Inl TypeError)"
| "coerce (EnumProperty items) _ = Inl TypeError"
| "coerce StringProperty (JStr s) = Inr (PStr s)"
| "coerce StringProperty _ = Inl TypeError"
| "coerce (FloatVectorProperty n lo hi) (JList vs) =
     (if length vs \<noteq> n then Inl ValueError
      else case as_numbers vs of None \<Rightarrow> Inl TypeError
           | Some xs \<Rightarrow> Inr (PVec (map (\<lambda>x. max lo (min hi x)) xs)))"
| "coerce (FloatVectorProperty n lo hi) _ = Inl TypeError"

text \<open>
  The properties \<^verbatim>\<open>VSEGuidesSettings\<close> declares, in source order, each with its
  type and default. \<^verbatim>\<open>CameraGuidesSettings\<close> declares the same names and types.
\<close>

definition settings_fields :: "(string \<times> prop_kind \<times> pval) list" where
  "settings_fields =
    [(''show_thirds'', BoolProperty, PBool False),
     (''thirds_color'', FloatVectorProperty 4 0 1, PVec [1, 1, 1, (1 / 2)]),
     (''show_golden'', BoolProperty, PBool False),
     (''golden_color'', FloatVectorProperty 4 0 1, PVec [1, 1, 1, (1 / 2)]),
     (''show_center'', BoolProperty, PBool False),
     (''center_color'', FloatVectorProperty 4 0 1, PVec [1, 1, 1, (1 / 2)]),
     (''show_diagonals'', BoolProperty, PBool False),
     (''diagonals_color'', FloatVectorProperty 4 0 1, PVec [1, 1, 1, (1 / 2)]),
     (''show_golden_spiral'', BoolProperty, PBool False),
     (''golden_spiral_flip_h'', BoolProperty, PBool False),
     (''golden_spiral_flip_v'', BoolProperty, PBool False),
     (''golden_spiral_length'', IntProperty (Some 1) (Some 24), PInt 8),
     (''golden_spiral_show_segments'', BoolProperty, PBool True),
     (''golden_spiral_fit'', BoolProperty, PBool False),
     (''golden_spiral_color'', FloatVectorProperty 4 0 1, PVec [1, 1, 1, (1 / 2)]),
     (''show_golden_triangle'', BoolProperty, PBool False),
     (''golden_triangle_rotation'', FloatProperty None None, PFloat 0),
     (''golden_triangle_scale'', FloatProperty (Some (1 / 10)) (Some 2), PFloat 1),
     (''golden_triangle_count'', IntProperty (Some 1) (Some 10), PInt 1),
     (''golden_triangle_color'', FloatVectorProperty 4 0 1, PVec [1, 1, 1, (1 / 2)]),
     (''show_radial_symmetry'', BoolProperty, PBool False),
     (''radial_symmetry_color'', FloatVectorProperty 4 0 1, PVec [1, 1, 1, (1 / 2)]),
     (''radial_line_count'', IntProperty (Some 2) (Some 32), PInt 8),
     (''show_vanishing_point'', BoolProperty, PBool False),
     (''vanishing_point_color'', FloatVectorProperty 4 0 1, PVec [1, 1, 1, (1 / 2)]),
     (''vanishing_point_x'', FloatProperty (Some 0) (Some 1), PFloat (1 / 2)),
     (''vanishing_point_y'', FloatProperty (Some 0) (Some 1), PFloat (1 / 2)),
     (''vanishing_point_lines'', IntProperty (Some 1) (Some 16), PInt 1),
     (''show_vanishing_point_grid'', BoolProperty, PBool False),
     (''vanishing_point_grid_count'', IntProperty (Some 2) (Some 64), PInt 10),
     (''show_circular_thirds'', BoolProperty, PBool False),
     (''circular_thirds_count'', IntProperty (Some 1) (Some 10), PInt 3),
     (''circular_thirds_fit'', BoolProperty, PBool False),
     (''circular_thirds_color'', FloatVectorProperty 4 0 1, PVec [1, 1, 1, (1 / 2)]),
     (''show_diagonal_reciprocals'', BoolProperty, PBool False),
     (''diagonal_reciprocals_color'', FloatVectorProperty 4 0 1, PVec [1, 1, 1, (1 / 2)]),
     (''show_harmony_triangles'', BoolProperty, PBool False),
     (''harmony_triangles_color'', FloatVectorProperty 4 0 1, PVec [1, 1, 1, (1 / 2)]),
     (''harmony_triangles_flip'', BoolProperty, PBool False),
     (''show_diagonal_method'', BoolProperty, PBool False),
     (''diagonal_method_color'', FloatVectorProperty 4 0 1, PVec [1, 1, 1, (1 / 2)]),
     (''diagonal_method_angle'', FloatProperty (Some 0) (Some 90), PFloat 45),
     (''show_rulers'', BoolProperty, PBool False),
     (''ruler_units'', EnumProperty [''RESOLUTION'', ''PIXELS'', ''PERCENT''], PStr ''RESOLUTION''),
     (''ruler_color'', FloatVectorProperty 4 0 1, PVec [1, 1, 1, (1 / 2)]),
     (''line_width'', FloatProperty (Some (1 / 2)) (Some 5), PFloat 1),
     (''ruler_size'', IntProperty (Some 20) (Some 50), PInt 30),
     (''bg_color'', FloatVectorProperty 4 0 1, PVec [(4 / 25), (4 / 25), (4 / 25), (24 / 25)]),
     (''show_grid'', BoolProperty, PBool False),
     (''grid_divisions'', IntProperty (Some 2) (Some 32), PInt 8),
     (''grid_square'', BoolProperty, PBool False),
     (''grid_color'', FloatVectorProperty 4 0 1, PVec [1, 1, 1, (3 / 10)]),
     (''show_custom_guides'', BoolProperty, PBool True),
     (''active_guide_index'', IntProperty None None, PInt 0),
     (''hide_guides_outside_frame'', BoolProperty, PBool True),
     (''stored_active_guides'', StringProperty, PStr ''''),
     (''active_preset'', StringProperty, PStr ''''),
     (''new_preset_name'', StringProperty, PStr '''')]"

type_synonym settings = "string \<Rightarrow> pval"

definition field_kind :: "string \<Rightarrow> prop_kind option" where
  "field_kind n = map_option fst (map_of settings_fields n)"

definition hasattr :: "string \<Rightarrow> bool" where
  "hasattr n = (field_kind n \<noteq> None)"

definition default_settings :: settings where
  "default_settings n =
     (case map_of settings_fields n of Some (k, d) \<Rightarrow> d | None \<Rightarrow> PBool False)"

definition setattr :: "settings \<Rightarrow> string \<Rightarrow> json \<Rightarrow> py_error + settings" where
  "setattr s n v =
     (case field_kind n of
        None \<Rightarrow> Inl AttributeError
      | Some k \<Rightarrow> (case coerce k v of Inl e \<Rightarrow> Inl e | Inr x \<Rightarrow> Inr (s(n := x))))"

section \<open>Presets (presets.py)\<close>

definition PRESET_PROPERTIES :: "string list" where
  "PRESET_PROPERTIES =
    [''show_thirds'', ''show_golden'', ''show_center'', ''show_diagonals'',
     ''show_golden_spiral'', ''show_golden_triangle'', ''show_radial_symmetry'',
     ''show_vanishing_point'', ''show_circular_thirds'', ''show_diagonal_reciprocals'',
     ''show_harmony_triangles'', ''show_diagonal_method'', ''show_rulers'',
     ''show_grid'', ''show_custom_guides'', ''thirds_color'', ''golden_color'',
     ''center_color'', ''diagonals_color'', ''golden_spiral_color'',
     ''golden_triangle_color'', ''radial_symmetry_color'', ''vanishing_point_color'',
     ''circular_thirds_color'', ''diagonal_reciprocals_color'',
     ''harmony_triangles_color'', ''diagonal_method_color'', ''ruler_color'',
     ''bg_color'', ''grid_color'', ''golden_spiral_flip_h'', ''golden_spiral_flip_v'',
     ''golden_spiral_length'', ''golden_spiral_show_segments'', ''golden_spiral_fit'',
     ''golden_triangle_rotation'', ''golden_triangle_fit'', ''radial_line_count'',
     ''vanishing_point_x'', ''vanishing_point_y'', ''circular_thirds_count'',
     ''circular_thirds_fit'', ''ruler_units'', ''line_width'', ''ruler_size'',
     ''grid_divisions'', ''grid_square'', ''hide_guides_outside_frame'']"

fun to_json :: "pval \<Rightarrow> json" where
  "to_json (PBool b) = JBool b"
| "to_json (PInt i) = JInt i"
| "to_json (PFloat x) = JFloat x"
| "to_json (PStr s) = JStr s"
| "to_json (PVec xs) = JList (map JFloat xs)"

text \<open>
  \<^verbatim>\<open>settings_to_dict\<close>: one entry per allow-listed name the settings object has, in
  the order of the allow-list; a vector becomes a list.
\<close>

definition settings_to_dict :: "settings \<Rightarrow> (string \<times> json) list" where
  "settings_to_dict s =
     map (\<lambda>prop_name. (prop_name, to_json (s prop_name))) (filter hasattr PRESET_PROPERTIES)"

text \<open>
  The loop \<^verbatim>\<open>for i, v in enumerate(value): prop[i] = v\<close> on a vector property:
  each item is written through to the settings; an index past the size or a value that
  is no number raises, which ends the loop with the earlier items written.
\<close>

fun assign_items :: "real \<Rightarrow> real \<Rightarrow> real list \<Rightarrow> nat \<Rightarrow> json list \<Rightarrow> real list" where
  "assign_items lo hi xs i [] = xs"
| "assign_items lo hi xs i (v # vs) =
     (if i < length xs
      then (case as_number v of
              None \<Rightarrow> xs
            | Some x \<Rightarrow> assign_items lo hi (xs[i := max lo (min hi x)]) (Suc i) vs)
      else xs)"

text \<open>
  One round of the loop of \<^verbatim>\<open>dict_to_settings\<close>. Every exception is caught and
  printed, so a failed assignment leaves the settings as they are at that point.
\<close>

definition apply_entry :: "settings \<Rightarrow> string \<times> json \<Rightarrow> settings" where
  "apply_entry s e =
     (case e of (prop_name, value) \<Rightarrow>
        if prop_name \<in> set PRESET_PROPERTIES \<and> hasattr prop_name
        then (case value of
                JList vs \<Rightarrow>
                  (case (field_kind prop_name, s prop_name) of
                     (Some (FloatVectorProperty n lo hi), PVec xs) \<Rightarrow>
                        s(prop_name := PVec (assign_items lo hi xs 0 vs))
                   | _ \<Rightarrow> s)
              | _ \<Rightarrow> (case setattr s prop_name value of Inl err \<Rightarrow> s | Inr s' \<Rightarrow> s'))
        else s)"

definition dict_to_settings :: "(string \<times> json) list \<Rightarrow> settings \<Rightarrow> settings" where
  "dict_to_settings data s = foldl apply_entry s data"


section \<open>Toggle all guides (operators.py, VSE\_OT\_toggle\_all\_guides)\<close>

definition guide_props :: "string list" where
  "guide_props =
    [''show_thirds'', ''show_golden'', ''show_center'', ''show_diagonals'', ''show_rulers'',
     ''show_grid'', ''show_custom_guides'', ''show_golden_spiral'', ''show_golden_triangle'',
     ''show_circular_thirds'', ''show_radial_symmetry'', ''show_vanishing_point'',
     ''show_diagonal_reciprocals'', ''show_harmony_triangles'', ''show_diagonal_method'']"

text \<open>Python's \<^verbatim>\<open>",".join(xs)\<close> and \<^verbatim>\<open>s.split(",")\<close>.\<close>

fun join_comma :: "string list \<Rightarrow> string" where
  "join_comma [] = []"
| "join_comma [x] = x"
| "join_comma (x # y # ys) = x @ CHR '','' # join_comma (y # ys)"

fun split_comma :: "string \<Rightarrow> string list" where
  "split_comma [] = [[]]"
| "split_comma (c # cs) =
     (let r = split_comma cs
      in if c = CHR '','' then [] # r else (c # hd r) # tl r)"

text \<open>
  The loop of the "toggling off" branch: every property that is on is appended to
  \<^verbatim>\<open>active_guides\<close> and set to False. An exception leaves the operator with the
  settings as changed so far.
\<close>

fun disable_active ::
  "string list \<Rightarrow> settings \<Rightarrow> string list \<Rightarrow> (py_error \<times> settings) + (settings \<times> string list)" where
  "disable_active [] s active_guides = Inr (s, active_guides)"
| "disable_active (prop # props) s active_guides =
     (if truthy (s prop)
      then (case setattr s prop (JBool False) of
              Inl err \<Rightarrow> Inl (err, s)
            | Inr s' \<Rightarrow> disable_active props s' (active_guides @ [prop]))
      else disable_active props s active_guides)"

text \<open>The loop of the "toggling on" branch over the saved names.\<close>

fun restore_saved ::
  "string list \<Rightarrow> settings \<Rightarrow> nat \<Rightarrow> (py_error \<times> settings) + (settings \<times> nat)" where
  "restore_saved [] s count = Inr (s, count)"
| "restore_saved (prop # props) s count =
     (if hasattr prop
      then (case setattr s prop (JBool True) of
              Inl err \<Rightarrow> Inl (err, s)
            | Inr s' \<Rightarrow> restore_saved props s' (count + 1))
      else restore_saved props s count)"

definition enable_defaults :: "settings \<Rightarrow> (py_error \<times> settings) + settings" where
  "enable_defaults s =
     (case setattr s ''show_thirds'' (JBool True) of
        Inl err \<Rightarrow> Inl (err, s)
      | Inr s1 \<Rightarrow>
          (case setattr s1 ''show_custom_guides'' (JBool True) of
             Inl err \<Rightarrow> Inl (err, s1)
           | Inr s2 \<Rightarrow> Inr s2))"

definition toggle_all_guides :: "settings \<Rightarrow> (py_error \<times> settings) + settings" where
  "toggle_all_guides s =
     (if list_ex (\<lambda>prop. truthy (s prop)) guide_props
      then (case disable_active guide_props s [] of
              Inl x \<Rightarrow> Inl x
            | Inr (s', active_guides) \<Rightarrow>
                (case setattr s' ''stored_active_guides'' (JStr (join_comma active_guides)) of
                   Inl err \<Rightarrow> Inl (err, s')
                 | Inr s'' \<Rightarrow> Inr s''))
      else if truthy (s ''stored_active_guides'')
      then (case s ''stored_active_guides'' of
              PStr stored \<Rightarrow>
                (case restore_saved (split_comma stored) s 0 of
                   Inl x \<Rightarrow> Inl x
                 | Inr (s', count) \<Rightarrow> if count = 0 then enable_defaults s' else Inr s')
            | _ \<Rightarrow> Inl (AttributeError, s))
      else enable_defaults s)"

text \<open>The visibility toggles of a settings object, in the order of \<open>guide_props\<close>.\<close>

definition toggles :: "settings \<Rightarrow> bool list" where
  "toggles s = map (\<lambda>prop. truthy (s prop)) guide_props"

text \<open>An example state: the defaults with thirds and grid on and guide lines off.\<close>

definition toggle_example :: settings where
  "toggle_example =
     default_settings(''show_thirds'' := PBool True, ''show_grid'' := PBool True,
                      ''show_custom_guides'' := PBool False)"

section \<open>Guide lines (properties.py, CustomGuide)\<close>

datatype orientation = HORIZONTAL | VERTICAL

record guide =
  name :: string
  position_x :: real
  position_y :: real
  rotation :: real
  orientation :: orientation
  color :: "real list"

text \<open>\<^verbatim>\<open>collection.add()\<close> appends an item with the declared defaults.\<close>

definition new_guide :: guide where
  "new_guide =
     \<lparr>name = ''Guide'', position_x = 0, position_y = 0, rotation = 0,
      orientation = HORIZONTAL, color = [0, 2 / 5, 1, 1 / 2]\<rparr>"

text \<open>
  Assigning a float to \<^verbatim>\<open>position_x\<close> or \<^verbatim>\<open>position_y\<close>: both are declared
  \<^verbatim>\<open>FloatProperty(min=-1.0, max=1.0)\<close>, so the host stores the value clamped to
  that range.
\<close>

definition store_position_x :: "guide \<Rightarrow> real \<Rightarrow> guide" where
  "store_position_x g v = g\<lparr>position_x := clamp_opt (Some (- 1)) (Some 1) v\<rparr>"

definition store_position_y :: "guide \<Rightarrow> real \<Rightarrow> guide" where
  "store_position_y g v = g\<lparr>position_y := clamp_opt (Some (- 1)) (Some 1) v\<rparr>"

text \<open>Assigning an arbitrary Python value, as preset loading does.\<close>

definition set_name :: "guide \<Rightarrow> json \<Rightarrow> py_error + guide" where
  "set_name g v = (case v of JStr s \<Rightarrow> Inr (g\<lparr>name := s\<rparr>) | _ \<Rightarrow> Inl TypeError)"

definition set_position_x :: "guide \<Rightarrow> json \<Rightarrow> py_error + guide" where
  "set_position_x g v =
     (case as_number v of None \<Rightarrow> Inl TypeError | Some x \<Rightarrow> Inr (store_position_x g x))"

definition set_position_y :: "guide \<Rightarrow> json \<Rightarrow> py_error + guide" where
  "set_position_y g v =
     (case as_number v of None \<Rightarrow> Inl TypeError | Some x \<Rightarrow> Inr (store_position_y g x))"

definition set_rotation :: "guide \<Rightarrow> json \<Rightarrow> py_error + guide" where
  "set_rotation g v =
     (case as_number v of None \<Rightarrow> Inl TypeError | Some x \<Rightarrow> Inr (g\<lparr>rotation := x\<rparr>))"

definition set_orientation :: "guide \<Rightarrow> json \<Rightarrow> py_error + guide" where
  "set_orientation g v =
     (if v = JStr ''HORIZONTAL'' then Inr (g\<lparr>orientation := HORIZONTAL\<rparr>)
      else if v = JStr ''VERTICAL'' then Inr (g\<lparr>orientation := VERTICAL\<rparr>)
      else Inl TypeError)"

definition set_color :: "guide \<Rightarrow> json \<Rightarrow> py_error + guide" where
  "set_color g v =
     (case coerce (FloatVectorProperty 4 0 1) v of
        Inr (PVec xs) \<Rightarrow> Inr (g\<lparr>color := xs\<rparr>)
      | Inr _ \<Rightarrow> Inl TypeError
      | Inl err \<Rightarrow> Inl err)"

text \<open>\<^verbatim>\<open>guide.color[i] = v\<close>.\<close>

definition set_color_item :: "guide \<Rightarrow> nat \<Rightarrow> json \<Rightarrow> py_error + guide" where
  "set_color_item g i v =
     (if i < length (color g)
      then (case as_number v of
              None \<Rightarrow> Inl TypeError
            | Some x \<Rightarrow> Inr (g\<lparr>color := (color g)[i := max 0 (min 1 x)]\<rparr>))
      else Inl IndexError)"

text \<open>
  A sequence of assignments to one collection item. The item is already in the
  collection, so when an assignment raises, the item stays as assigned so far.
\<close>

definition then_set ::
  "py_error option \<times> guide \<Rightarrow> (guide \<Rightarrow> py_error + guide) \<Rightarrow> py_error option \<times> guide" where
  "then_set r f =
     (case r of
        (Some err, g) \<Rightarrow> (Some err, g)
      | (None, g) \<Rightarrow> (case f g of Inl err \<Rightarrow> (Some err, g) | Inr g' \<Rightarrow> (None, g')))"

text \<open>What a \<^verbatim>\<open>for\<close> loop iterates over; \<open>None\<close> when the value is not iterable.\<close>

fun iter_json :: "json \<Rightarrow> json list option" where
  "iter_json (JList vs) = Some vs"
| "iter_json (JStr s) = Some (map (\<lambda>c. JStr [c]) s)"
| "iter_json (JObj kvs) = Some (map (\<lambda>kv. JStr (fst kv)) kvs)"
| "iter_json _ = None"

text \<open>\<^verbatim>\<open>d.get(key, default)\<close> on a dict.\<close>

definition dict_get :: "(string \<times> json) list \<Rightarrow> string \<Rightarrow> json \<Rightarrow> json" where
  "dict_get kvs key dflt = (case map_of kvs key of None \<Rightarrow> dflt | Some v \<Rightarrow> v)"

fun set_color_items :: "nat \<Rightarrow> json list \<Rightarrow> guide \<Rightarrow> py_error option \<times> guide" where
  "set_color_items i [] g = (None, g)"
| "set_color_items i (v # vs) g =
     (case set_color_item g i v of
        Inl err \<Rightarrow> (Some err, g)
      | Inr g' \<Rightarrow> set_color_items (Suc i) vs g')"

section \<open>Loading a preset (presets.py, VSE\_OT\_load\_preset and VSE\_OT\_import\_preset)\<close>

text \<open>
  The body of the loop over \<^verbatim>\<open>data['custom_guides']\<close>: a new item is added and its
  properties are assigned from \<^verbatim>\<open>guide_data\<close>, which must be a dict.
\<close>

definition load_guide :: "json \<Rightarrow> py_error option \<times> guide" where
  "load_guide guide_data =
     (case guide_data of
        JObj kvs \<Rightarrow>
          (let r = then_set (then_set (then_set (then_set (None, new_guide)
                     (\<lambda>g. set_position_x g (dict_get kvs ''position_x'' (JFloat 0))))
                     (\<lambda>g. set_position_y g (dict_get kvs ''position_y'' (JFloat 0))))
                     (\<lambda>g. set_rotation g (dict_get kvs ''rotation'' (JFloat 0))))
                     (\<lambda>g. set_orientation g (dict_get kvs ''orientation'' (JStr ''HORIZONTAL'')))
           in case r of
                (Some err, g) \<Rightarrow> (Some err, g)
              | (None, g) \<Rightarrow>
                  (case map_of kvs ''color'' of
                     None \<Rightarrow> (None, g)
                   | Some c \<Rightarrow>
                       (case iter_json c of
                          None \<Rightarrow> (Some TypeError, g)
                        | Some vs \<Rightarrow> set_color_items 0 vs g)))
      | _ \<Rightarrow> (Some AttributeError, new_guide))"

fun load_guides :: "json list \<Rightarrow> guide list \<Rightarrow> py_error option \<times> guide list" where
  "load_guides [] custom_guides = (None, custom_guides)"
| "load_guides (guide_data # rest) custom_guides =
     (case load_guide guide_data of
        (Some err, g) \<Rightarrow> (Some err, custom_guides @ [g])
      | (None, g) \<Rightarrow> load_guides rest (custom_guides @ [g]))"

fun is_prefix :: "string \<Rightarrow> string \<Rightarrow> bool" where
  "is_prefix [] ys = True"
| "is_prefix (x # xs) [] = False"
| "is_prefix (x # xs) (y # ys) = (x = y \<and> is_prefix xs ys)"

fun contains_str :: "string \<Rightarrow> string \<Rightarrow> bool" where
  "contains_str xs [] = (xs = [])"
| "contains_str xs (y # ys) = (is_prefix xs (y # ys) \<or> contains_str xs ys)"

text \<open>
  The part of the load that deals with guide lines:
  \<^verbatim>\<open>if 'custom_guides' in data: custom_guides.clear(); for guide_data in data['custom_guides']: ...\<close>.
  Only a dict can be indexed by the key; the collection is cleared before the lookup.
\<close>

definition load_custom_guides :: "json \<Rightarrow> guide list \<Rightarrow> py_error option \<times> guide list" where
  "load_custom_guides data custom_guides =
     (case data of
        JObj kvs \<Rightarrow>
          (case map_of kvs ''custom_guides'' of
             None \<Rightarrow> (None, custom_guides)
           | Some v \<Rightarrow>
               (case iter_json v of
                  None \<Rightarrow> (Some TypeError, [])
                | Some items \<Rightarrow> load_guides items []))
      | JList vs \<Rightarrow>
          (if JStr ''custom_guides'' \<in> set vs then (Some TypeError, []) else (None, custom_guides))
      | JStr s \<Rightarrow>
          (if contains_str ''custom_guides'' s then (Some TypeError, []) else (None, custom_guides))
      | _ \<Rightarrow> (Some TypeError, custom_guides))"

text \<open>
  The whole load after the file has been parsed: guide lines, then the settings, then
  the name of the active preset. \<^verbatim>\<open>dict_to_settings\<close> calls \<^verbatim>\<open>data.items()\<close>,
  which only a dict has.
\<close>

definition load_preset_data ::
  "string \<Rightarrow> json \<Rightarrow> guide list \<times> settings \<Rightarrow> py_error option \<times> guide list \<times> settings" where
  "load_preset_data preset_name data st =
     (case st of (custom_guides, s) \<Rightarrow>
        (case load_custom_guides data custom_guides of
           (Some err, gs) \<Rightarrow> (Some err, gs, s)
         | (None, gs) \<Rightarrow>
             (case data of
                JObj kvs \<Rightarrow>
                  (case setattr (dict_to_settings kvs s) ''active_preset'' (JStr preset_name) of
                     Inl err \<Rightarrow> (Some err, gs, dict_to_settings kvs s)
                   | Inr s' \<Rightarrow> (None, gs, s'))
              | _ \<Rightarrow> (Some AttributeError, gs, s))))"

section \<open>Serialized guide lines of the second generation (b\_guides\_v1.1/properties.py)\<close>

text \<open>
  The setter of \<^verbatim>\<open>custom_guides_data\<close> hands its string to \<^verbatim>\<open>json.loads\<close>. The value
  that comes back may hold one of the three non-finite floats, which the reals of \<open>json\<close>
  do not have: \<open>PyFloat\<close> carries a finite float, \<open>PyNonFinite\<close> is \<^verbatim>\<open>nan\<close>, \<^verbatim>\<open>inf\<close>
  or \<^verbatim>\<open>-inf\<close>.
\<close>

datatype nonfinite = NaN | Infinity | NegInfinity

datatype pyvalue =
    PyNone
  | PyBool bool
  | PyInt int
  | PyFloat real
  | PyNonFinite nonfinite
  | PyStr string
  | PyList "pyvalue list"
  | PyDict "(string \<times> pyvalue) list"

text \<open>
  \<^verbatim>\<open>json.loads\<close> of the standard library with its default arguments, on a \<^verbatim>\<open>str\<close>.
  It skips whitespace, scans one value, skips whitespace and requires the end of the
  text; every failure is a \<^verbatim>\<open>JSONDecodeError\<close>, which is a \<^verbatim>\<open>ValueError\<close>. The model
  scans the text into tokens and then checks their nesting, which accepts the same
  texts with the same values. A \<^verbatim>\<open>str\<close> is the list of the bytes of its UTF-8 encoding,
  a float literal stands for its decimal value (floats are reals), and the limits of the
  interpreter (recursion depth, the number of digits of an int) are not modelled.

  Whitespace is space, tab, line feed and carriage return.
\<close>

definition is_ws :: "char \<Rightarrow> bool" where
  "is_ws c = (c = CHR '' '' \<or> c = CHR 0x09 \<or> c = CHR 0x0A \<or> c = CHR 0x0D)"

definition is_digit :: "char \<Rightarrow> bool" where
  "is_digit c = (48 \<le> (of_char c :: nat) \<and> (of_char c :: nat) \<le> 57)"

definition digits_value :: "string \<Rightarrow> nat" where
  "digits_value ds = foldl (\<lambda>n c. 10 * n + (of_char c - 48)) 0 ds"

definition hex_value :: "char \<Rightarrow> nat option" where
  "hex_value c =
     (let n = of_char c :: nat
      in if 48 \<le> n \<and> n \<le> 57 then Some (n - 48)
         else if 97 \<le> n \<and> n \<le> 102 then Some (n - 87)
         else if 65 \<le> n \<and> n \<le> 70 then Some (n - 55)
         else None)"

definition hex4 :: "char \<Rightarrow> char \<Rightarrow> char \<Rightarrow> char \<Rightarrow> nat option" where
  "hex4 a b c d =
     (case (hex_value a, hex_value b, hex_value c, hex_value d) of
        (Some w, Some x, Some y, Some z) \<Rightarrow> Some (((w * 16 + x) * 16 + y) * 16 + z)
      | _ \<Rightarrow> None)"

text \<open>
  The character with code \<open>n\<close>, in UTF-8. A surrogate that is not part of a pair gets
  the three bytes the same scheme gives it.
\<close>

definition utf8 :: "nat \<Rightarrow> string" where
  "utf8 n =
     (if n < 0x80 then [char_of n]
      else if n < 0x800 then [char_of (0xC0 + n div 64), char_of (0x80 + n mod 64)]
      else if n < 0x10000
      then [char_of (0xE0 + n div 4096), char_of (0x80 + n div 64 mod 64),
            char_of (0x80 + n mod 64)]
      else [char_of (0xF0 + n div 262144), char_of (0x80 + n div 4096 mod 64),
            char_of (0x80 + n div 64 mod 64), char_of (0x80 + n mod 64)])"

text \<open>
The one-letter escapes of \<^verbatim>\<open>BACKSLASH\<close>.
\<close>

definition escape_char :: "char \<Rightarrow> char option" where
  "escape_char e =
     (if e = CHR 0x22 then Some (CHR 0x22)
      else if e = CHR 0x5C then Some (CHR 0x5C)
      else if e = CHR ''/'' then Some (CHR ''/'')
      else if e = CHR ''b'' then Some (CHR 0x08)
      else if e = CHR ''f'' then Some (CHR 0x0C)
      else if e = CHR ''n'' then Some (CHR 0x0A)
      else if e = CHR ''r'' then Some (CHR 0x0D)
      else if e = CHR ''t'' then Some (CHR 0x09)
      else None)"

text \<open>
  After the escape of a high surrogate \<open>uni\<close>: when the text goes on with the escape of
  a low surrogate, the code of the pair and the text after it.
\<close>

definition surrogate_low :: "nat \<Rightarrow> string \<Rightarrow> (nat \<times> string) option" where
  "surrogate_low uni s =
     (case s of
        b # u # l1 # l2 # l3 # l4 # r \<Rightarrow>
          (case hex4 l1 l2 l3 l4 of
             None \<Rightarrow> None
           | Some uni2 \<Rightarrow>
               if 0xD800 \<le> uni \<and> uni \<le> 0xDBFF \<and> b = CHR 0x5C \<and> u = CHR ''u''
                  \<and> 0xDC00 \<le> uni2 \<and> uni2 \<le> 0xDFFF
               then Some (0x10000 + ((uni - 0xD800) * 1024 + (uni2 - 0xDC00)), r)
               else None)
      | _ \<Rightarrow> None)"

text \<open>
  The text after a backslash: the characters the escape stands for and the text after
  the escape.
\<close>

definition escape :: "string \<Rightarrow> (string \<times> string) option" where
  "escape s =
     (case s of
        [] \<Rightarrow> None
      | e # r \<Rightarrow>
          if e = CHR ''u'' then
            (case r of
               h1 # h2 # h3 # h4 # r1 \<Rightarrow>
                 (case hex4 h1 h2 h3 h4 of
                    None \<Rightarrow> None
                  | Some uni \<Rightarrow>
                      (case surrogate_low uni r1 of
                         None \<Rightarrow> Some (utf8 uni, r1)
                       | Some (code, r2) \<Rightarrow> Some (utf8 code, r2)))
             | _ \<Rightarrow> None)
          else (case escape_char e of None \<Rightarrow> None | Some ch \<Rightarrow> Some ([ch], r)))"

text \<open>
  \<^verbatim>\<open>scanstring\<close> with \<^verbatim>\<open>strict=True\<close>, on the text after the opening quote: the
  string and the text after the closing quote. A character below 0x20, an unknown escape
  and a missing closing quote are errors.
\<close>

function scanstring :: "string \<Rightarrow> string \<Rightarrow> (string \<times> string) option" where
  "scanstring acc [] = None"
| "scanstring acc (c # cs) =
     (if c = CHR 0x22 then Some (acc, cs)
      else if c = CHR 0x5C then
        (case escape cs of
           None \<Rightarrow> None
         | Some (chars, r) \<Rightarrow> scanstring (acc @ chars) r)
      else if (of_char c :: nat) < 0x20 then None
      else scanstring (acc @ [c]) cs)"
  by pat_completeness auto
text \<open>
  \<^verbatim>\<open>NUMBER_RE\<close>: an optional minus sign, then 0 or digits that do not start with 0,
  then optionally a point and digits, then optionally an exponent of \<open>e\<close> or \<open>E\<close>, a sign
  and digits. Without fraction and exponent the number is an int, else a float.
\<close>

definition int_part :: "string \<Rightarrow> (string \<times> string) option" where
  "int_part s =
     (case s of
        [] \<Rightarrow> None
      | d # ds \<Rightarrow>
          if \<not> is_digit d then None
          else if d = CHR ''0'' then Some ([d], ds)
          else Some (takeWhile is_digit s, dropWhile is_digit s))"

definition frac_part :: "string \<Rightarrow> string option \<times> string" where
  "frac_part s =
     (case s of
        p # d # r \<Rightarrow>
          if p = CHR ''.'' \<and> is_digit d
          then (Some (takeWhile is_digit (d # r)), dropWhile is_digit (d # r))
          else (None, s)
      | _ \<Rightarrow> (None, s))"

definition exp_part :: "string \<Rightarrow> (bool \<times> string) option \<times> string" where
  "exp_part s =
     (case s of
        [] \<Rightarrow> (None, s)
      | e # r \<Rightarrow>
          if e = CHR ''e'' \<or> e = CHR ''E'' then
            (case r of
               [] \<Rightarrow> (None, s)
             | g # r' \<Rightarrow>
                 if is_digit g
                 then (Some (False, takeWhile is_digit r), dropWhile is_digit r)
                 else if (g = CHR ''+'' \<or> g = CHR ''-'') \<and> r' \<noteq> [] \<and> is_digit (hd r')
                 then (Some (g = CHR ''-'', takeWhile is_digit r'), dropWhile is_digit r')
                 else (None, s))
          else (None, s))"

definition decimal_value :: "string \<Rightarrow> string option \<Rightarrow> (bool \<times> string) option \<Rightarrow> real" where
  "decimal_value ip fp ep =
     (real (digits_value ip)
        + (case fp of None \<Rightarrow> 0 | Some fd \<Rightarrow> real (digits_value fd) / 10 ^ length fd))
     * (case ep of
          None \<Rightarrow> 1
        | Some (neg, ed) \<Rightarrow> if neg then 1 / 10 ^ digits_value ed else 10 ^ digits_value ed)"

definition scan_number :: "string \<Rightarrow> (pyvalue \<times> string) option" where
  "scan_number s =
     (let neg = (s \<noteq> [] \<and> hd s = CHR ''-'');
          s1 = (if neg then tl s else s)
      in case int_part s1 of
           None \<Rightarrow> None
         | Some (ip, s2) \<Rightarrow>
             (case frac_part s2 of
                (fp, s3) \<Rightarrow>
                  (case exp_part s3 of
                     (ep, s4) \<Rightarrow>
                       if fp = None \<and> ep = None
                       then Some (PyInt ((if neg then - 1 else 1) * int (digits_value ip)), s4)
                       else Some (PyFloat ((if neg then - 1 else 1) * decimal_value ip fp ep), s4))))"

text \<open>
The tokens of a text.
\<close>

datatype token =
  LBrace | RBrace | LBracket | RBracket | Colon | Comma | TString string | TValue pyvalue

definition scan_literal :: "string \<Rightarrow> pyvalue \<Rightarrow> string \<Rightarrow> (token \<times> string) option" where
  "scan_literal lit v s = (if is_prefix lit s then Some (TValue v, drop (length lit) s) else None)"

text \<open>
  The token at the head of a text, in the order \<^verbatim>\<open>scan_once\<close> tries the cases: string,
  object, array, \<^verbatim>\<open>null\<close>, \<^verbatim>\<open>true\<close>, \<^verbatim>\<open>false\<close>, number, and last the three
  constants \<^verbatim>\<open>NaN\<close>, \<^verbatim>\<open>Infinity\<close> and \<^verbatim>\<open>-Infinity\<close>. The constants are no part
  of JSON (RFC 8259): \<open>allow_constants\<close> is \<open>True\<close> for \<^verbatim>\<open>json.loads\<close> and \<open>False\<close>
  for the JSON grammar.
\<close>

definition scan_standard :: "string \<Rightarrow> (token \<times> string) option" where
  "scan_standard s =
     (case s of
        [] \<Rightarrow> None
      | c # cs \<Rightarrow>
          if c = CHR 0x22
          then (case scanstring [] cs of None \<Rightarrow> None | Some (str, r) \<Rightarrow> Some (TString str, r))
          else if c = CHR ''{'' then Some (LBrace, cs)
          else if c = CHR ''}'' then Some (RBrace, cs)
          else if c = CHR ''['' then Some (LBracket, cs)
          else if c = CHR '']'' then Some (RBracket, cs)
          else if c = CHR '':'' then Some (Colon, cs)
          else if c = CHR '','' then Some (Comma, cs)
          else if c = CHR ''n'' then scan_literal ''null'' PyNone s
          else if c = CHR ''t'' then scan_literal ''true'' (PyBool True) s
          else if c = CHR ''f'' then scan_literal ''false'' (PyBool False) s
          else (case scan_number s of None \<Rightarrow> None | Some (v, r) \<Rightarrow> Some (TValue v, r)))"

definition scan_constant :: "string \<Rightarrow> (token \<times> string) option" where
  "scan_constant s =
     (case s of
        [] \<Rightarrow> None
      | c # cs \<Rightarrow>
          if c = CHR ''N'' then scan_literal ''NaN'' (PyNonFinite NaN) s
          else if c = CHR ''I'' then scan_literal ''Infinity'' (PyNonFinite Infinity) s
          else if c = CHR ''-'' then scan_literal ''-Infinity'' (PyNonFinite NegInfinity) s
          else None)"

definition scan_once :: "bool \<Rightarrow> string \<Rightarrow> (token \<times> string) option" where
  "scan_once allow_constants s =
     (case scan_standard s of
        Some x \<Rightarrow> Some x
      | None \<Rightarrow> if allow_constants then scan_constant s else None)"

text \<open>
All tokens of a text; whitespace before and between them is skipped.
\<close>

function tokens :: "bool \<Rightarrow> string \<Rightarrow> token list option" where
  "tokens allow_constants s =
     (case dropWhile is_ws s of
        [] \<Rightarrow> Some []
      | c # cs \<Rightarrow>
          (case scan_once allow_constants (c # cs) of
             None \<Rightarrow> None
           | Some (t, r) \<Rightarrow>
               (case tokens allow_constants r of None \<Rightarrow> None | Some ts \<Rightarrow> Some (t # ts))))"
  by pat_completeness auto
text \<open>
  \<^verbatim>\<open>JSONArray\<close> and \<^verbatim>\<open>JSONObject\<close>: the arrays and objects that are still open,
  innermost first, an object with the key whose value is awaited; \<open>expecting\<close> says what
  may come next. A repeated key keeps its place and takes the later value, as in a
  Python dict. After the value of the whole text nothing may follow.
\<close>

datatype open_container =
  ArrayFrame "pyvalue list" | ObjectFrame "(string \<times> pyvalue) list" "string option"

datatype expecting =
  AValue | ValueOrClose | AKey | KeyOrClose | AColon | CommaOrClose | End pyvalue

fun dict_set :: "(string \<times> pyvalue) list \<Rightarrow> string \<Rightarrow> pyvalue \<Rightarrow> (string \<times> pyvalue) list" where
  "dict_set [] k v = [(k, v)]"
| "dict_set ((k', v') # kvs) k v =
     (if k' = k then (k', v) # kvs else (k', v') # dict_set kvs k v)"

fun put_value :: "pyvalue \<Rightarrow> open_container list \<Rightarrow> (expecting \<times> open_container list) option" where
  "put_value v [] = Some (End v, [])"
| "put_value v (ArrayFrame items # st) = Some (CommaOrClose, ArrayFrame (items @ [v]) # st)"
| "put_value v (ObjectFrame pairs (Some key) # st) =
     Some (CommaOrClose, ObjectFrame (dict_set pairs key v) None # st)"
| "put_value v (ObjectFrame pairs None # st) = None"

fun close_array :: "open_container list \<Rightarrow> (expecting \<times> open_container list) option" where
  "close_array (ArrayFrame items # st) = put_value (PyList items) st"
| "close_array _ = None"

fun close_object :: "open_container list \<Rightarrow> (expecting \<times> open_container list) option" where
  "close_object (ObjectFrame pairs None # st) = put_value (PyDict pairs) st"
| "close_object _ = None"

fun open_member :: "string \<Rightarrow> open_container list \<Rightarrow> (expecting \<times> open_container list) option" where
  "open_member key (ObjectFrame pairs None # st) = Some (AColon, ObjectFrame pairs (Some key) # st)"
| "open_member key _ = None"

fun after_comma :: "open_container list \<Rightarrow> (expecting \<times> open_container list) option" where
  "after_comma (ArrayFrame items # st) = Some (AValue, ArrayFrame items # st)"
| "after_comma (ObjectFrame pairs None # st) = Some (AKey, ObjectFrame pairs None # st)"
| "after_comma _ = None"

definition value_token :: "bool \<Rightarrow> token \<Rightarrow> open_container list \<Rightarrow> (expecting \<times> open_container list) option" where
  "value_token may_close t st =
     (case t of
        TValue v \<Rightarrow> put_value v st
      | TString s \<Rightarrow> put_value (PyStr s) st
      | LBracket \<Rightarrow> Some (ValueOrClose, ArrayFrame [] # st)
      | LBrace \<Rightarrow> Some (KeyOrClose, ObjectFrame [] None # st)
      | RBracket \<Rightarrow> if may_close then close_array st else None
      | _ \<Rightarrow> None)"

definition key_token :: "bool \<Rightarrow> token \<Rightarrow> open_container list \<Rightarrow> (expecting \<times> open_container list) option" where
  "key_token may_close t st =
     (case t of
        TString key \<Rightarrow> open_member key st
      | RBrace \<Rightarrow> if may_close then close_object st else None
      | _ \<Rightarrow> None)"

definition parse_token :: "expecting \<times> open_container list \<Rightarrow> token \<Rightarrow> (expecting \<times> open_container list) option" where
  "parse_token c t =
     (case c of
        (AValue, st) \<Rightarrow> value_token False t st
      | (ValueOrClose, st) \<Rightarrow> value_token True t st
      | (AKey, st) \<Rightarrow> key_token False t st
      | (KeyOrClose, st) \<Rightarrow> key_token True t st
      | (AColon, st) \<Rightarrow> (if t = Colon then Some (AValue, st) else None)
      | (CommaOrClose, st) \<Rightarrow>
          (case t of
             Comma \<Rightarrow> after_comma st
           | RBracket \<Rightarrow> close_array st
           | RBrace \<Rightarrow> close_object st
           | _ \<Rightarrow> None)
      | (End v, st) \<Rightarrow> None)"

fun parse_tokens :: "expecting \<times> open_container list \<Rightarrow> token list \<Rightarrow> pyvalue option" where
  "parse_tokens c [] = (case c of (End v, []) \<Rightarrow> Some v | _ \<Rightarrow> None)"
| "parse_tokens c (t # ts) =
     (case parse_token c t of None \<Rightarrow> None | Some c' \<Rightarrow> parse_tokens c' ts)"

text \<open>
  \<^verbatim>\<open>json.loads\<close> is \<open>loads_with True\<close>; a text is valid JSON when \<open>loads_with False\<close>
  accepts it.
\<close>

definition loads_with :: "bool \<Rightarrow> string \<Rightarrow> py_error + pyvalue" where
  "loads_with allow_constants s =
     (case tokens allow_constants s of
        None \<Rightarrow> Inl ValueError
      | Some ts \<Rightarrow>
          (case parse_tokens (AValue, []) ts of None \<Rightarrow> Inl ValueError | Some v \<Rightarrow> Inr v))"

definition json_loads :: "string \<Rightarrow> py_error + pyvalue" where
  "json_loads = loads_with True"

definition valid_json :: "string \<Rightarrow> bool" where
  "valid_json s = (case loads_with False s of Inl err \<Rightarrow> False | Inr v \<Rightarrow> True)"

text \<open>
  A text uses a constant when one of its tokens is \<^verbatim>\<open>NaN\<close>, \<^verbatim>\<open>Infinity\<close> or
  \<^verbatim>\<open>-Infinity\<close>.
\<close>

definition is_constant :: "token \<Rightarrow> bool" where
  "is_constant t = (case t of TValue (PyNonFinite k) \<Rightarrow> True | _ \<Rightarrow> False)"

definition uses_constants :: "string \<Rightarrow> bool" where
  "uses_constants s = (case tokens True s of None \<Rightarrow> False | Some ts \<Rightarrow> list_ex is_constant ts)"

text \<open>
  Assignment of a parsed value to a property. The host checks the type of the value,
  which does not depend on a float being finite, and then stores it. \<open>json_shape\<close> is the
  value with 0.0 in place of every non-finite float, so that the setters above give the
  type check. What the host stores for a non-finite float is not modelled: the outcome
  \<open>NonFiniteStored\<close> says that one was assigned, and the item is left as assigned so far.
\<close>

fun json_shape :: "pyvalue \<Rightarrow> json" where
  "json_shape PyNone = JNull"
| "json_shape (PyBool b) = JBool b"
| "json_shape (PyInt i) = JInt i"
| "json_shape (PyFloat x) = JFloat x"
| "json_shape (PyNonFinite k) = JFloat 0"
| "json_shape (PyStr s) = JStr s"
| "json_shape (PyList vs) = JList (map json_shape vs)"
| "json_shape (PyDict kvs) = JObj (map (\<lambda>kv. (fst kv, json_shape (snd kv))) kvs)"

fun has_nonfinite :: "pyvalue \<Rightarrow> bool" where
  "has_nonfinite (PyNonFinite k) = True"
| "has_nonfinite (PyList vs) = list_ex has_nonfinite vs"
| "has_nonfinite (PyDict kvs) = list_ex (\<lambda>kv. has_nonfinite (snd kv)) kvs"
| "has_nonfinite _ = False"

text \<open>
  How the setter ends: it returns, it raises, or it has assigned a non-finite float.
\<close>

datatype outcome = Returned | Raised py_error | NonFiniteStored

definition then_assign ::
  "outcome \<times> guide \<Rightarrow> (guide \<Rightarrow> json \<Rightarrow> py_error + guide) \<Rightarrow> pyvalue \<Rightarrow> outcome \<times> guide" where
  "then_assign r setter v =
     (case r of
        (Returned, g) \<Rightarrow>
          (case setter g (json_shape v) of
             Inl err \<Rightarrow> (Raised err, g)
           | Inr g' \<Rightarrow> if has_nonfinite v then (NonFiniteStored, g) else (Returned, g'))
      | _ \<Rightarrow> r)"

text \<open>
\<^verbatim>\<open>d.get(key, default)\<close> and what a \<^verbatim>\<open>for\<close> loop iterates over.
\<close>

definition py_get :: "(string \<times> pyvalue) list \<Rightarrow> string \<Rightarrow> pyvalue \<Rightarrow> pyvalue" where
  "py_get kvs key dflt = (case map_of kvs key of None \<Rightarrow> dflt | Some v \<Rightarrow> v)"

fun iter_py :: "pyvalue \<Rightarrow> pyvalue list option" where
  "iter_py (PyList vs) = Some vs"
| "iter_py (PyStr s) = Some (map (\<lambda>c. PyStr [c]) s)"
| "iter_py (PyDict kvs) = Some (map (\<lambda>kv. PyStr (fst kv)) kvs)"
| "iter_py _ = None"

text \<open>
  The loop body of \<^verbatim>\<open>deserialize_guides\<close> after \<^verbatim>\<open>guides_collection.add()\<close>: every
  property is assigned from \<^verbatim>\<open>item.get(...)\<close> with the default of the property. Only a
  dict has \<^verbatim>\<open>get\<close>.
\<close>

definition deserialize_item :: "pyvalue \<Rightarrow> outcome \<times> guide" where
  "deserialize_item item =
     (case item of
        PyDict kvs \<Rightarrow>
          then_assign (then_assign (then_assign (then_assign (then_assign (then_assign
            (Returned, new_guide)
            set_name (py_get kvs ''name'' (PyStr ''Guide'')))
            set_position_x (py_get kvs ''position_x'' (PyFloat 0)))
            set_position_y (py_get kvs ''position_y'' (PyFloat 0)))
            set_rotation (py_get kvs ''rotation'' (PyFloat 0)))
            set_orientation (py_get kvs ''orientation'' (PyStr ''HORIZONTAL'')))
            set_color (py_get kvs ''color''
                         (PyList [PyFloat 0, PyFloat (2 / 5), PyFloat 1, PyFloat (1 / 2)]))
      | _ \<Rightarrow> (Raised AttributeError, new_guide))"

fun deserialize_items :: "pyvalue list \<Rightarrow> guide list \<Rightarrow> outcome \<times> guide list" where
  "deserialize_items [] guides_collection = (Returned, guides_collection)"
| "deserialize_items (item # rest) guides_collection =
     (case deserialize_item item of
        (Returned, g) \<Rightarrow> deserialize_items rest (guides_collection @ [g])
      | (out, g) \<Rightarrow> (out, guides_collection @ [g]))"

text \<open>
  \<^verbatim>\<open>deserialize_guides\<close>, the setter of \<^verbatim>\<open>custom_guides_data\<close>: it returns on an
  empty value and on \<^verbatim>\<open>ValueError\<close> from \<^verbatim>\<open>json.loads\<close>, the only exception it
  catches; otherwise it clears the collection and fills it from the parsed value.
\<close>

definition deserialize_guides :: "guide list \<Rightarrow> string \<Rightarrow> outcome \<times> guide list" where
  "deserialize_guides guides_collection value =
     (if value = [] then (Returned, guides_collection)
      else case json_loads value of
             Inl err \<Rightarrow>
               (if err = ValueError then (Returned, guides_collection)
                else (Raised err, guides_collection))
           | Inr data \<Rightarrow>
               (case iter_py data of
                  None \<Rightarrow> (Raised TypeError, [])
                | Some items \<Rightarrow> deserialize_items items []))"

text \<open>
A serialized collection of two guide lines.
\<close>

definition example_text :: string where
  \<open>example_text = ''[{"name": "Left third", "position_x": -0.5, "orientation": "VERTICAL"}, {"position_y": 2, "color": [1, 0.5, 0, 1]}]''\<close>

section \<open>Frame rectangle (drawing.py, get\_frame\_coordinates)\<close>

text \<open>
  \<^verbatim>\<open>view2d.view_to_region(x, y, clip=False)\<close> is the host's pan/zoom transform from
  preview coordinates to integer region pixels; it is a parameter \<open>v2r\<close> here. The
  render resolution is a pair of integers, the pixel aspect a pair of floats.
\<close>

record render_settings =
  resolution_x :: int
  resolution_y :: int
  pixel_aspect_x :: real
  pixel_aspect_y :: real

type_synonym frame = "real \<times> real \<times> real \<times> real"

definition get_frame_coordinates ::
  "(real \<Rightarrow> real \<Rightarrow> int \<times> int) \<Rightarrow> int \<Rightarrow> int \<Rightarrow> render_settings \<Rightarrow> frame" where
  "get_frame_coordinates v2r region_width region_height render =
     (let render_width = real_of_int (resolution_x render);
          render_height = real_of_int (resolution_y render);
          pixel_aspect = (if pixel_aspect_y render \<noteq> 0
                          then pixel_aspect_x render / pixel_aspect_y render else 1);
          adjusted_width = render_width * pixel_aspect;
          adjusted_height = render_height
      in if adjusted_width = 0 \<or> adjusted_height = 0
         then (0, 0, real_of_int region_width, real_of_int region_height)
         else (case v2r (- adjusted_width / 2) (- adjusted_height / 2) of (x1, y1) \<Rightarrow>
               case v2r (adjusted_width / 2) (adjusted_height / 2) of (x2, y2) \<Rightarrow>
                 (real_of_int x1, real_of_int y1, real_of_int (x2 - x1), real_of_int (y2 - y1))))"

section \<open>Dragging guide lines (operators.py)\<close>

datatype event = MOUSEMOVE int int | LEFTMOUSE_RELEASE | RIGHTMOUSE | ESC | DEL_PRESS | OTHER_EVENT

datatype op_status = RUNNING_MODAL | FINISHED | CANCELLED | PASS_THROUGH

text \<open>
  What a modal operator keeps on \<^verbatim>\<open>self\<close>: the guide it drags (its index in the
  collection) and the frame rectangle computed at invoke time; the move operator also
  keeps the position the guide had.
\<close>

record drag_op =
  guide_index :: nat
  frame_x :: real
  frame_y :: real
  frame_width :: real
  frame_height :: real

record move_op = drag_op +
  original_position_x :: real
  original_position_y :: real

text \<open>
  The frame rectangle both \<^verbatim>\<open>invoke\<close> methods compute, from the render resolution
  alone. \<open>None\<close> when a resolution is 0 (the operator is cancelled).
\<close>

definition invoke_frame ::
  "(real \<Rightarrow> real \<Rightarrow> int \<times> int) \<Rightarrow> render_settings \<Rightarrow> frame option" where
  "invoke_frame v2r render =
     (let render_width = real_of_int (resolution_x render);
          render_height = real_of_int (resolution_y render)
      in if render_width = 0 \<or> render_height = 0 then None
         else (case v2r (- render_width / 2) (- render_height / 2) of (x1, y1) \<Rightarrow>
               case v2r (render_width / 2) (render_height / 2) of (x2, y2) \<Rightarrow>
                 Some (real_of_int x1, real_of_int y1,
                       real_of_int (x2 - x1), real_of_int (y2 - y1))))"

text \<open>
  The \<^verbatim>\<open>MOUSEMOVE\<close> branch common to both modal handlers: the mouse offset from the
  frame centre, normalised by half the frame size, clamped and assigned. Python raises
  on a division by zero.
\<close>

definition drag_update :: "'a drag_op_scheme \<Rightarrow> int \<Rightarrow> int \<Rightarrow> guide \<Rightarrow> py_error + guide" where
  "drag_update self mouse_region_x mouse_region_y g =
     (if orientation g = HORIZONTAL
      then (let center_y = frame_y self + frame_height self / 2;
                screen_offset_y = real_of_int mouse_region_y - center_y
            in if frame_height self / 2 = 0 then Inl ZeroDivisionError
               else Inr (store_position_y g
                           (max (- 1) (min 1 (screen_offset_y / (frame_height self / 2))))))
      else (let center_x = frame_x self + frame_width self / 2;
                screen_offset_x = real_of_int mouse_region_x - center_x
            in if frame_width self / 2 = 0 then Inl ZeroDivisionError
               else Inr (store_position_x g
                           (max (- 1) (min 1 (screen_offset_x / (frame_width self / 2)))))))"

definition remove_at :: "nat \<Rightarrow> 'a list \<Rightarrow> 'a list" where
  "remove_at i xs = take i xs @ drop (Suc i) xs"

text \<open>\<^verbatim>\<open>VSE_OT_move_custom_guide.modal\<close>.\<close>

definition move_modal :: "move_op \<Rightarrow> event \<Rightarrow> guide list \<Rightarrow> py_error + (op_status \<times> guide list)" where
  "move_modal self ev custom_guides =
     (let i = guide_index self in
      case ev of
        MOUSEMOVE mx my \<Rightarrow>
          (if i < length custom_guides
           then (case drag_update self mx my (custom_guides ! i) of
                   Inl err \<Rightarrow> Inl err
                 | Inr g \<Rightarrow> Inr (RUNNING_MODAL, custom_guides[i := g]))
           else Inr (RUNNING_MODAL, custom_guides))
      | LEFTMOUSE_RELEASE \<Rightarrow> Inr (FINISHED, custom_guides)
      | RIGHTMOUSE \<Rightarrow>
          (if i < length custom_guides
           then Inr (CANCELLED, custom_guides[i :=
                  store_position_y (store_position_x (custom_guides ! i)
                    (original_position_x self)) (original_position_y self)])
           else Inr (CANCELLED, custom_guides))
      | ESC \<Rightarrow>
          (if i < length custom_guides
           then Inr (CANCELLED, custom_guides[i :=
                  store_position_y (store_position_x (custom_guides ! i)
                    (original_position_x self)) (original_position_y self)])
           else Inr (CANCELLED, custom_guides))
      | DEL_PRESS \<Rightarrow> Inr (FINISHED, remove_at i custom_guides)
      | OTHER_EVENT \<Rightarrow> Inr (RUNNING_MODAL, custom_guides))"

text \<open>
  The hit test of \<^verbatim>\<open>VSE_OT_move_custom_guide.invoke\<close>: the closest guide line
  strictly nearer than the running distance, which starts at the 5 pixel threshold,
  with the mouse inside the frame along the other axis.
\<close>

fun hit_test ::
  "frame \<Rightarrow> int \<Rightarrow> int \<Rightarrow> (nat \<times> guide) list \<Rightarrow> real \<times> nat option \<Rightarrow> real \<times> nat option" where
  "hit_test fr mouse_x mouse_y [] closest = closest"
| "hit_test fr mouse_x mouse_y ((i, g) # rest) closest =
     (case fr of (fx, fy, fw, fh) \<Rightarrow>
      case closest of (closest_distance, closest_index) \<Rightarrow>
        (if orientation g = HORIZONTAL
         then (let guide_screen_y = (fy + fh / 2) + (position_y g * fh / 2);
                   distance = \<bar>real_of_int mouse_y - guide_screen_y\<bar>
               in if distance < closest_distance
                     \<and> fx \<le> real_of_int mouse_x \<and> real_of_int mouse_x \<le> fx + fw
                  then hit_test fr mouse_x mouse_y rest (distance, Some i)
                  else hit_test fr mouse_x mouse_y rest closest)
         else (let guide_screen_x = (fx + fw / 2) + (position_x g * fw / 2);
                   distance = \<bar>real_of_int mouse_x - guide_screen_x\<bar>
               in if distance < closest_distance
                     \<and> fy \<le> real_of_int mouse_y \<and> real_of_int mouse_y \<le> fy + fh
                  then hit_test fr mouse_x mouse_y rest (distance, Some i)
                  else hit_test fr mouse_x mouse_y rest closest)))"

definition move_invoke ::
  "(real \<Rightarrow> real \<Rightarrow> int \<times> int) \<Rightarrow> render_settings \<Rightarrow> int \<Rightarrow> int \<Rightarrow> guide list
     \<Rightarrow> op_status \<times> move_op option" where
  "move_invoke v2r render mouse_x mouse_y custom_guides =
     (case invoke_frame v2r render of
        None \<Rightarrow> (CANCELLED, None)
      | Some (fx, fy, fw, fh) \<Rightarrow>
          (case hit_test (fx, fy, fw, fh) mouse_x mouse_y
                  (enumerate 0 custom_guides) (5, None) of
             (d, None) \<Rightarrow> (PASS_THROUGH, None)
           | (d, Some i) \<Rightarrow>
               (RUNNING_MODAL,
                Some \<lparr>guide_index = i, frame_x = fx, frame_y = fy, frame_width = fw,
                      frame_height = fh,
                      original_position_x = position_x (custom_guides ! i),
                      original_position_y = position_y (custom_guides ! i)\<rparr>)))"

text \<open>
  \<^verbatim>\<open>VSE_OT_drag_guide_from_ruler\<close>: invoke adds a guide when the mouse is in the top
  or left ruler band, modal drags it, a cancel removes the last guide. When the division
  in invoke raises, the guide has been added already, with its orientation set.
\<close>

definition drag_invoke ::
  "(real \<Rightarrow> real \<Rightarrow> int \<times> int) \<Rightarrow> render_settings \<Rightarrow> int \<Rightarrow> int \<Rightarrow> int \<Rightarrow> guide list
     \<Rightarrow> (py_error \<times> guide list) + (op_status \<times> drag_op option \<times> guide list)" where
  "drag_invoke v2r render ruler_size mouse_x mouse_y custom_guides =
     (case invoke_frame v2r render of
        None \<Rightarrow> Inr (CANCELLED, None, custom_guides)
      | Some (fx, fy, fw, fh) \<Rightarrow>
          (let mx = real_of_int mouse_x; my = real_of_int mouse_y;
               in_top_ruler = (fx \<le> mx \<and> mx \<le> fx + fw
                               \<and> fy + fh \<le> my \<and> my \<le> fy + fh + real_of_int ruler_size);
               in_left_ruler = (fx - real_of_int ruler_size \<le> mx \<and> mx \<le> fx
                               \<and> fy \<le> my \<and> my \<le> fy + fh);
               self = \<lparr>guide_index = length custom_guides, frame_x = fx, frame_y = fy,
                       frame_width = fw, frame_height = fh\<rparr>
           in if \<not> (in_top_ruler \<or> in_left_ruler) then Inr (CANCELLED, None, custom_guides)
              else if in_top_ruler
              then (if fh / 2 = 0
                    then Inl (ZeroDivisionError,
                              custom_guides @ [new_guide\<lparr>orientation := HORIZONTAL\<rparr>])
                    else Inr (RUNNING_MODAL, Some self,
                           custom_guides @ [store_position_y (new_guide\<lparr>orientation := HORIZONTAL\<rparr>)
                              (max (- 1) (min 1 ((my - (fy + fh / 2)) / (fh / 2))))]))
              else (if fw / 2 = 0
                    then Inl (ZeroDivisionError,
                              custom_guides @ [new_guide\<lparr>orientation := VERTICAL\<rparr>])
                    else Inr (RUNNING_MODAL, Some self,
                           custom_guides @ [store_position_x (new_guide\<lparr>orientation := VERTICAL\<rparr>)
                              (max (- 1) (min 1 ((mx - (fx + fw / 2)) / (fw / 2))))]))))"

definition drag_modal :: "drag_op \<Rightarrow> event \<Rightarrow> guide list \<Rightarrow> py_error + (op_status \<times> guide list)" where
  "drag_modal self ev custom_guides =
     (let i = guide_index self in
      case ev of
        MOUSEMOVE mx my \<Rightarrow>
          (if i < length custom_guides
           then (case drag_update self mx my (custom_guides ! i) of
                   Inl err \<Rightarrow> Inl err
                 | Inr g \<Rightarrow> Inr (RUNNING_MODAL, custom_guides[i := g]))
           else Inr (RUNNING_MODAL, custom_guides))
      | LEFTMOUSE_RELEASE \<Rightarrow> Inr (FINISHED, custom_guides)
      | RIGHTMOUSE \<Rightarrow> Inr (CANCELLED, butlast custom_guides)
      | ESC \<Rightarrow> Inr (CANCELLED, butlast custom_guides)
      | DEL_PRESS \<Rightarrow> Inr (RUNNING_MODAL, custom_guides)
      | OTHER_EVENT \<Rightarrow> Inr (RUNNING_MODAL, custom_guides))"

text \<open>\<^verbatim>\<open>VSE_OT_add_custom_guide.execute\<close>; the name is the new length in decimal.\<close>

definition add_custom_guide :: "(nat \<Rightarrow> string) \<Rightarrow> orientation \<Rightarrow> guide list \<Rightarrow> guide list" where
  "add_custom_guide str ori custom_guides =
     custom_guides @
       [(store_position_y (store_position_x (new_guide\<lparr>orientation := ori\<rparr>) 0) 0)
          \<lparr>name := str (Suc (length custom_guides))\<rparr>]"

section \<open>Reachable guide collections\<close>

text \<open>
  The guide collection together with the modal operator that is running, if any. A
  step is one of the operations of the addon that writes guide lines: the add, remove
  and clear operators, a property edit in the panel, a preset load, and the invoke and
  modal handlers of the two drag operators. A modal handler that raises ends its
  operator and leaves the collection as it is.
\<close>

datatype modal_state = Idle | Moving move_op | Creating drag_op

definition after_modal :: "op_status \<Rightarrow> modal_state \<Rightarrow> modal_state" where
  "after_modal st m = (if st = RUNNING_MODAL then m else Idle)"

inductive reachable :: "guide list \<times> modal_state \<Rightarrow> bool" where
  start: "reachable ([], Idle)"
| add: "reachable (gs, m) \<Longrightarrow> reachable (add_custom_guide str ori gs, m)"
| remove: "reachable (gs, m) \<Longrightarrow> reachable (remove_at i gs, m)"
| clear: "reachable (gs, m) \<Longrightarrow> reachable ([], m)"
| edit_x: "reachable (gs, m) \<Longrightarrow> i < length gs \<Longrightarrow> set_position_x (gs ! i) v = Inr g
           \<Longrightarrow> reachable (gs[i := g], m)"
| edit_y: "reachable (gs, m) \<Longrightarrow> i < length gs \<Longrightarrow> set_position_y (gs ! i) v = Inr g
           \<Longrightarrow> reachable (gs[i := g], m)"
| load: "reachable (gs, m) \<Longrightarrow> reachable (snd (load_custom_guides data gs), m)"
| move_start: "reachable (gs, Idle) \<Longrightarrow> move_invoke v2r render mx my gs = (RUNNING_MODAL, Some self)
           \<Longrightarrow> reachable (gs, Moving self)"
| move_event: "reachable (gs, Moving self) \<Longrightarrow> move_modal self ev gs = Inr (st, gs')
           \<Longrightarrow> reachable (gs', after_modal st (Moving self))"
| drag_start: "reachable (gs, Idle)
           \<Longrightarrow> drag_invoke v2r render ruler_size mx my gs = Inr (RUNNING_MODAL, Some self, gs')
           \<Longrightarrow> reachable (gs', Creating self)"
| drag_event: "reachable (gs, Creating self) \<Longrightarrow> drag_modal self ev gs = Inr (st, gs')
           \<Longrightarrow> reachable (gs', after_modal st (Creating self))"
| drag_start_raised: "reachable (gs, Idle)
           \<Longrightarrow> drag_invoke v2r render ruler_size mx my gs = Inl (err, gs')
           \<Longrightarrow> reachable (gs', Idle)"
| modal_raised: "reachable (gs, m) \<Longrightarrow> reachable (gs, Idle)"

definition in_range :: "guide \<Rightarrow> bool" where
  "in_range g =
     (- 1 \<le> position_x g \<and> position_x g \<le> 1 \<and> - 1 \<le> position_y g \<and> position_y g \<le> 1)"

section \<open>An example drag\<close>

text \<open>
  A 200 by 100 render shown unscaled with its lower left corner at the region origin, one
  vertical guide line at the centre, picked at (100, 50) and dragged to x = 270.
\<close>

definition example_v2r :: "real \<Rightarrow> real \<Rightarrow> int \<times> int" where
  "example_v2r x y = (\<lfloor>x\<rfloor> + 100, \<lfloor>y\<rfloor> + 50)"

definition example_render :: render_settings where
  "example_render = \<lparr>resolution_x = 200, resolution_y = 100, pixel_aspect_x = 1, pixel_aspect_y = 1\<rparr>"

definition example_guides :: "guide list" where
  "example_guides = add_custom_guide (\<lambda>n. ''1'') VERTICAL []"

definition example_op :: move_op where
  "example_op = \<lparr>guide_index = 0, frame_x = 0, frame_y = 0, frame_width = 200, frame_height = 100,
      original_position_x = 0, original_position_y = 0\<rparr>"

definition example_dragged :: "guide list" where
  "example_dragged =
     (case move_modal example_op (MOUSEMOVE 270 50) example_guides of
        Inl err \<Rightarrow> [] | Inr (st, gs) \<Rightarrow> gs)"

section \<open>Diagonal method: live overlay and exported image\<close>

type_synonym point = "real \<times> real"
type_synonym segment = "point \<times> point"

definition radians :: "real \<Rightarrow> real" where
  "radians d = d * pi / 180"

text \<open>
  The diagonal-method branch of \<^verbatim>\<open>draw_composition_guides\<close> (drawing.py): four lines
  of length \<open>2 * max(frame_width, frame_height)\<close> from the corners of the frame, at the
  angle \<^verbatim>\<open>settings.diagonal_method_angle\<close>, given in degrees.
\<close>

definition diagonal_method_lines :: "real \<Rightarrow> frame \<Rightarrow> segment list" where
  "diagonal_method_lines diagonal_method_angle fr =
     (case fr of (fx, fy, fw, fh) \<Rightarrow>
        let angle_rad = radians diagonal_method_angle;
            max_len = max fw fh * 2;
            dx = max_len * cos angle_rad;
            dy = max_len * sin angle_rad
        in [((fx, fy), (fx + dx, fy + dy)),
            ((fx + fw, fy), (fx + fw - dx, fy + dy)),
            ((fx, fy + fh), (fx + dx, fy + fh - dy)),
            ((fx + fw, fy + fh), (fx + fw - dx, fy + fh - dy))])"

text \<open>
  The diagonal-method branch of \<^verbatim>\<open>VSE_OT_export_guides_image.execute\<close>
  (operators.py), in pixels of the \<open>width\<close> by \<open>height\<close> image: the lines it hands to
  the rasterizer. The angle setting is not read there.
\<close>

definition export_diagonal_method :: "int \<Rightarrow> int \<Rightarrow> segment list" where
  "export_diagonal_method width height =
     (let w = real_of_int width; h = real_of_int height; min_dim = real_of_int (min width height)
      in [((0, 0), (min_dim, min_dim)),
          ((w, 0), (w - min_dim, min_dim)),
          ((0, h), (min_dim, h - min_dim)),
          ((w, h), (w - min_dim, h - min_dim))])"

section \<open>Golden spiral generation (drawing.py, draw\_composition\_guides)\<close>

definition phi :: real where
  "phi = 161803398875 / 100000000000"

definition gen_h :: real where
  "gen_h = 1000"

definition gen_w :: real where
  "gen_w = gen_h * phi"

text \<open>The working rectangle \<open>(lx, ly, lw, lh)\<close>.\<close>

type_synonym work_rect = "real \<times> real \<times> real \<times> real"

text \<open>
  The arc of one iteration: \<open>(center_x, center_y, radius, start_angle, end_angle)\<close>.
  Its 33 points are at the angles \<open>start + (end - start) * i / 32\<close>, \<open>i = 0..32\<close>.
\<close>

type_synonym arc = "real \<times> real \<times> real \<times> real \<times> real"

definition arc_points :: "arc \<Rightarrow> point list" where
  "arc_points a =
     (case a of (center_x, center_y, radius, start_angle, end_angle) \<Rightarrow>
        map (\<lambda>i. let t = real i / 32;
                     angle = start_angle + (end_angle - start_angle) * t
                 in (center_x + radius * cos angle, center_y + radius * sin angle))
            [0..<32 + 1])"

text \<open>
  The four branches of the loop body, chosen by \<open>idx mod 4\<close>: the arc, the boundary line
  of the carved square, and the working rectangle that remains.
\<close>

definition carve :: "nat \<Rightarrow> work_rect \<Rightarrow> arc \<times> segment \<times> work_rect" where
  "carve idx r =
     (case r of (lx, ly, lw, lh) \<Rightarrow>
        let mindim = min lw lh; cycle = idx mod 4; radius = mindim
        in if cycle = 0
           then ((lx + radius, ly, radius, pi, pi / 2),
                 ((lx + radius, ly), (lx + radius, ly + lh)),
                 (lx + radius, ly, lw - radius, lh))
           else if cycle = 1
           then ((lx, ly + lh - radius, radius, pi / 2, 0),
                 ((lx, ly + lh - radius), (lx + lw, ly + lh - radius)),
                 (lx, ly, lw, lh - radius))
           else if cycle = 2
           then ((lx + lw - radius, ly + lh, radius, 0, - pi / 2),
                 ((lx + lw - radius, ly), (lx + lw - radius, ly + lh)),
                 (lx, ly, lw - radius, lh))
           else ((lx + lw, ly + radius, radius, - pi / 2, - pi),
                 ((lx, ly + radius), (lx + lw, ly + radius)),
                 (lx, ly + radius, lw, lh - radius)))"

record spiral_state =
  work :: work_rect
  points :: "point list"
  rect_lines :: "segment list"

definition spiral_step :: "bool \<Rightarrow> nat \<Rightarrow> spiral_state \<Rightarrow> spiral_state" where
  "spiral_step golden_spiral_show_segments idx st =
     (case carve idx (work st) of (a, boundary, r') \<Rightarrow>
        \<lparr>work = r',
         points = points st @ arc_points a,
         rect_lines = (if golden_spiral_show_segments then rect_lines st @ [boundary]
                       else rect_lines st)\<rparr>)"

text \<open>
  \<^verbatim>\<open>for idx in range(max_iter): if lw < 1.0 or lh < 1.0: break; ...\<close>
\<close>

function spiral_loop :: "bool \<Rightarrow> nat \<Rightarrow> nat \<Rightarrow> spiral_state \<Rightarrow> spiral_state" where
  "spiral_loop show_segments max_iter idx st =
     (if idx < max_iter
      then (case work st of (lx, ly, lw, lh) \<Rightarrow>
              if lw < 1 \<or> lh < 1 then st
              else spiral_loop show_segments max_iter (Suc idx) (spiral_step show_segments idx st))
      else st)"
  by pat_completeness auto
termination
  by (relation "measure (\<lambda>(s, max_iter, idx, st). max_iter - idx)") auto

declare spiral_loop.simps [simp del]

definition golden_spiral_generate :: "bool \<Rightarrow> nat \<Rightarrow> spiral_state" where
  "golden_spiral_generate golden_spiral_show_segments golden_spiral_length =
     spiral_loop golden_spiral_show_segments golden_spiral_length 0
       \<lparr>work = (0, 0, gen_w, gen_h), points = [], rect_lines = []\<rparr>"

text \<open>
  The lines handed on to the transform: consecutive points of the curve, then the
  boundary lines when they are shown.
\<close>

definition golden_spiral_lines :: "bool \<Rightarrow> nat \<Rightarrow> segment list" where
  "golden_spiral_lines show_segments golden_spiral_length =
     (let st = golden_spiral_generate show_segments golden_spiral_length
      in (if length (points st) > 1 then zip (butlast (points st)) (tl (points st)) else [])
         @ (if show_segments then rect_lines st else []))"

text \<open>The working rectangle before iteration \<open>k\<close> when no iteration has stopped the loop.\<close>

fun work_before :: "nat \<Rightarrow> work_rect" where
  "work_before 0 = (0, 0, gen_w, gen_h)"
| "work_before (Suc k) = snd (snd (carve k (work_before k)))"

definition arc_of :: "nat \<Rightarrow> arc" where
  "arc_of k = fst (carve k (work_before k))"

definition too_small :: "work_rect \<Rightarrow> bool" where
  "too_small r = (case r of (lx, ly, lw, lh) \<Rightarrow> lw < 1 \<or> lh < 1)"

definition boundary_of :: "nat \<Rightarrow> segment" where
  "boundary_of k = fst (snd (carve k (work_before k)))"

text \<open>The loop state after \<open>k\<close> completed iterations.\<close>

definition state_after :: "bool \<Rightarrow> nat \<Rightarrow> spiral_state" where
  "state_after show_segments k =
     \<lparr>work = work_before k,
      points = concat (map (\<lambda>j. arc_points (arc_of j)) [0..<k]),
      rect_lines = (if show_segments then map boundary_of [0..<k] else [])\<rparr>"

section \<open>Clipping a line to the frame (drawing.py, clip\_line\_to\_rect)\<close>

text \<open>
  The Cohen-Sutherland outcodes are Python ints combined with \<^verbatim>\<open>|\<close> and
  \<^verbatim>\<open>&\<close>; coordinates are floats, modelled as reals. A float division by zero
  raises. The \<^verbatim>\<open>while True\<close> loop is a partial function: \<open>None\<close> stands for a
  loop that does not end.
\<close>

unbundle bit_operations_syntax

definition INSIDE :: int where "INSIDE = 0"

definition LEFT :: int where "LEFT = 1"

definition RIGHT :: int where "RIGHT = 2"

definition BOTTOM :: int where "BOTTOM = 4"

definition TOP :: int where "TOP = 8"

definition compute_code :: "frame \<Rightarrow> real \<Rightarrow> real \<Rightarrow> int" where
  "compute_code rect x y =
     (case rect of (rect_x, rect_y, rect_width, rect_height) \<Rightarrow>
        let code = INSIDE;
            code = (if x < rect_x then code OR LEFT
                    else if x > rect_x + rect_width then code OR RIGHT
                    else code)
        in (if y < rect_y then code OR BOTTOM
            else if y > rect_y + rect_height then code OR TOP
            else code))"

text \<open>
  The intersection with the boundary that \<^verbatim>\<open>code_out\<close> violates, tested in the
  order top, bottom, right, left. With no bit set the source leaves \<open>x\<close> and \<open>y\<close>
  unassigned.
\<close>

definition intersection ::
  "frame \<Rightarrow> real \<Rightarrow> real \<Rightarrow> real \<Rightarrow> real \<Rightarrow> int \<Rightarrow> py_error + point" where
  "intersection rect x1 y1 x2 y2 code_out =
     (case rect of (rect_x, rect_y, rect_width, rect_height) \<Rightarrow>
        if code_out AND TOP \<noteq> 0
        then (if y2 - y1 = 0 then Inl ZeroDivisionError
              else Inr (x1 + (x2 - x1) * (rect_y + rect_height - y1) / (y2 - y1),
                        rect_y + rect_height))
        else if code_out AND BOTTOM \<noteq> 0
        then (if y2 - y1 = 0 then Inl ZeroDivisionError
              else Inr (x1 + (x2 - x1) * (rect_y - y1) / (y2 - y1), rect_y))
        else if code_out AND RIGHT \<noteq> 0
        then (if x2 - x1 = 0 then Inl ZeroDivisionError
              else Inr (rect_x + rect_width,
                        y1 + (y2 - y1) * (rect_x + rect_width - x1) / (x2 - x1)))
        else if code_out AND LEFT \<noteq> 0
        then (if x2 - x1 = 0 then Inl ZeroDivisionError
              else Inr (rect_x, y1 + (y2 - y1) * (rect_x - x1) / (x2 - x1)))
        else Inl UnboundLocalError)"

partial_function (option) clip_loop ::
  "frame \<Rightarrow> real \<Rightarrow> real \<Rightarrow> int \<Rightarrow> real \<Rightarrow> real \<Rightarrow> int \<Rightarrow> (py_error + segment option) option" where
  "clip_loop rect x1 y1 code1 x2 y2 code2 =
     (if code1 = 0 \<and> code2 = 0 then Some (Inr (Some ((x1, y1), (x2, y2))))
      else if code1 AND code2 \<noteq> 0 then Some (Inr None)
      else (let code_out = (if code1 \<noteq> 0 then code1 else code2)
            in case intersection rect x1 y1 x2 y2 code_out of
                 Inl err \<Rightarrow> Some (Inl err)
               | Inr (x, y) \<Rightarrow>
                   if code_out = code1
                   then clip_loop rect x y (compute_code rect x y) x2 y2 code2
                   else clip_loop rect x1 y1 code1 x y (compute_code rect x y)))"

definition clip_line_to_rect :: "point \<Rightarrow> point \<Rightarrow> frame \<Rightarrow> (py_error + segment option) option" where
  "clip_line_to_rect p1 p2 rect =
     (case p1 of (x1, y1) \<Rightarrow> case p2 of (x2, y2) \<Rightarrow>
        clip_loop rect x1 y1 (compute_code rect x1 y1) x2 y2 (compute_code rect x2 y2))"

text \<open>
  Geometry for stating what clipping returns: the point at parameter \<open>t\<close> on the line
  from \<open>a\<close> to \<open>b\<close>, the closed segment between them, and the closed rectangle.
\<close>

definition pt :: "point \<Rightarrow> point \<Rightarrow> real \<Rightarrow> point" where
  "pt a b t = (fst a + t * (fst b - fst a), snd a + t * (snd b - snd a))"

definition on_segment :: "point \<Rightarrow> point \<Rightarrow> point \<Rightarrow> bool" where
  "on_segment a b p = (\<exists>t. 0 \<le> t \<and> t \<le> 1 \<and> p = pt a b t)"

definition inside :: "frame \<Rightarrow> point \<Rightarrow> bool" where
  "inside rect p =
     (case rect of (rect_x, rect_y, rect_width, rect_height) \<Rightarrow>
        rect_x \<le> fst p \<and> fst p \<le> rect_x + rect_width
        \<and> rect_y \<le> snd p \<and> snd p \<le> rect_y + rect_height)"

text \<open>How many of the four sides have an endpoint of the segment beyond them.\<close>

definition outside_count :: "frame \<Rightarrow> point \<Rightarrow> point \<Rightarrow> nat" where
  "outside_count rect a b =
     (case rect of (rect_x, rect_y, rect_width, rect_height) \<Rightarrow>
        of_bool (fst a < rect_x \<or> fst b < rect_x)
        + of_bool (fst a > rect_x + rect_width \<or> fst b > rect_x + rect_width)
        + of_bool (snd a < rect_y \<or> snd b < rect_y)
        + of_bool (snd a > rect_y + rect_height \<or> snd b > rect_y + rect_height))"

text \<open>
  What a clipping result has to be: nothing when no point of the segment is inside the
  rectangle, else two points inside the rectangle that span exactly the points of the
  segment that are inside.
\<close>

definition clip_spec :: "frame \<Rightarrow> point \<Rightarrow> point \<Rightarrow> segment option \<Rightarrow> bool" where
  "clip_spec rect a b res =
     (case res of
        None \<Rightarrow> (\<forall>p. on_segment a b p \<longrightarrow> \<not> inside rect p)
      | Some (q1, q2) \<Rightarrow>
          inside rect q1 \<and> inside rect q2
          \<and> (\<forall>p. on_segment q1 q2 p \<longleftrightarrow> on_segment a b p \<and> inside rect p))"

section \<open>Theorems\<close>

subsection \<open>Properties of the tick interval\<close>

lemma pick_interval_find:
  "pick_interval ppu cur xs =
     (case List.find (\<lambda>i. real_of_int i * ppu \<ge> target_spacing_px) xs of
        None \<Rightarrow> cur | Some i \<Rightarrow> i)"
  by (induction xs) simp_all

lemma find_sorted_least:
  fixes xs :: "int list"
  assumes "sorted xs" and "List.find P xs = Some x"
  shows "x \<in> set xs \<and> P x \<and> (\<forall>y\<in>set xs. P y \<longrightarrow> x \<le> y)"
  using assms
proof (induction xs)
  case Nil
  then show ?case by simp
next
  case (Cons a xs)
  show ?case
  proof (cases "P a")
    case True
    with Cons.prems show ?thesis by auto
  next
    case False
    with Cons.prems have "List.find P xs = Some x" and "sorted xs" by simp_all
    with Cons.IH have "x \<in> set xs \<and> P x \<and> (\<forall>y\<in>set xs. P y \<longrightarrow> x \<le> y)" by blast
    with False show ?thesis by auto
  qed
qed

lemma sorted_possible_intervals: "sorted possible_intervals"
  by (simp add: possible_intervals_def)

lemma find_none_largest:
  assumes "\<not> real_of_int 10000 * ppu \<ge> target_spacing_px"
  shows "List.find (\<lambda>i. real_of_int i * ppu \<ge> target_spacing_px) possible_intervals = None"
proof -
  have "\<not> real_of_int i * ppu \<ge> target_spacing_px" if "i \<in> set possible_intervals" for i
  proof -
    from that have "1 \<le> i" and "i \<le> 10000" by (auto simp: possible_intervals_def)
    show ?thesis
    proof (cases "0 \<le> ppu")
      case True
      with \<open>i \<le> 10000\<close> have "real_of_int i * ppu \<le> real_of_int 10000 * ppu"
        by (intro mult_right_mono) simp_all
      with assms show ?thesis by linarith
    next
      case False
      with \<open>1 \<le> i\<close> have "real_of_int i * ppu < 0"
        by (simp add: mult_pos_neg)
      then show ?thesis by (simp add: target_spacing_px_def)
    qed
  qed
  then show ?thesis by (simp add: find_None_iff)
qed

text \<open>
  C8, as the code has it. When some candidate reaches the 80 pixel target (that is, when
  the largest one, 10000, does), the chosen major interval is a candidate, reaches the
  target, and no candidate that reaches the target is smaller. When no candidate reaches
  it, the loop leaves the initial value 100 in place.
\<close>

theorem major_interval_units_choice:
  "(if real_of_int 10000 * ppu \<ge> target_spacing_px
    then major_interval_units ppu \<in> set possible_intervals
       \<and> real_of_int (major_interval_units ppu) * ppu \<ge> target_spacing_px
       \<and> (\<forall>c\<in>set possible_intervals.
             real_of_int c * ppu \<ge> target_spacing_px \<longrightarrow> major_interval_units ppu \<le> c)
    else major_interval_units ppu = 100)"
proof (cases "real_of_int 10000 * ppu \<ge> target_spacing_px")
  case True
  let ?P = "\<lambda>i. real_of_int i * ppu \<ge> target_spacing_px"
  have "10000 \<in> set possible_intervals" by (simp add: possible_intervals_def)
  with True have "List.find ?P possible_intervals \<noteq> None"
    by (auto simp: find_None_iff)
  then obtain x where x: "List.find ?P possible_intervals = Some x" by blast
  then have m: "major_interval_units ppu = x"
    by (simp add: major_interval_units_def pick_interval_find)
  from find_sorted_least [OF sorted_possible_intervals x] m True show ?thesis by simp
next
  case False
  then show ?thesis
    by (simp add: major_interval_units_def pick_interval_find find_none_largest)
qed

theorem major_interval_units_choice_witness:
  "real_of_int 10000 * (1/2) \<ge> target_spacing_px
   \<and> major_interval_units (1/2) = 200
   \<and> major_interval_units (1/2) \<in> set possible_intervals
   \<and> real_of_int (major_interval_units (1/2)) * (1/2) \<ge> target_spacing_px
   \<and> major_interval_units (1/2) \<le> 500"
proof -
  have h: "real_of_int 10000 * (1/2) \<ge> target_spacing_px"
    by (simp add: target_spacing_px_def)
  have c: "500 \<in> set possible_intervals" "real_of_int 500 * (1/2) \<ge> target_spacing_px"
    by (simp_all add: possible_intervals_def target_spacing_px_def)
  have v: "major_interval_units (1/2) = 200"
    by (simp add: major_interval_units_def possible_intervals_def target_spacing_px_def)
  from major_interval_units_choice [of "1/2"] h
  have "major_interval_units (1/2) \<in> set possible_intervals
       \<and> real_of_int (major_interval_units (1/2)) * (1/2) \<ge> target_spacing_px
       \<and> (\<forall>c\<in>set possible_intervals.
             real_of_int c * (1/2) \<ge> target_spacing_px \<longrightarrow> major_interval_units (1/2) \<le> c)"
    by simp
  with c h v show ?thesis by blast
qed

text \<open>
  At a zoom where even 10000 units span less than 80 pixels the chosen interval is 100,
  whose spacing is below the target: the interval is then not one that reaches 80 pixels.
\<close>

theorem major_interval_units_counterexample:
  "(0::real) < 1/1000
   \<and> major_interval_units (1/1000) = 100
   \<and> \<not> real_of_int (major_interval_units (1/1000)) * (1/1000) \<ge> target_spacing_px"
  by (simp add: major_interval_units_def possible_intervals_def target_spacing_px_def)

subsection \<open>Preset load and save touch allow-listed properties only\<close>

lemma apply_entry_other:
  "n \<noteq> fst e \<Longrightarrow> apply_entry s e n = s n"
  by (cases e)
     (auto simp: apply_entry_def setattr_def
           split: json.splits option.splits prop_kind.splits pval.splits sum.splits)

lemma apply_entry_not_listed:
  "fst e \<notin> set PRESET_PROPERTIES \<or> \<not> hasattr (fst e) \<Longrightarrow> apply_entry s e = s"
  by (cases e) (auto simp: apply_entry_def)

lemma dict_to_settings_other:
  "n \<notin> fst ` set data \<Longrightarrow> dict_to_settings data s n = s n"
  unfolding dict_to_settings_def
  by (induction data arbitrary: s) (simp_all add: apply_entry_other)

lemma dict_to_settings_not_listed:
  "n \<notin> set PRESET_PROPERTIES \<or> \<not> hasattr n \<Longrightarrow> dict_to_settings data s n = s n"
  unfolding dict_to_settings_def
proof (induction data arbitrary: s)
  case Nil
  then show ?case by simp
next
  case (Cons e data)
  have "apply_entry s e n = s n"
  proof (cases "fst e = n")
    case True
    with Cons.prems show ?thesis by (simp add: apply_entry_not_listed)
  next
    case False
    then show ?thesis by (simp add: apply_entry_other)
  qed
  with Cons show ?case by simp
qed

lemma settings_to_dict_keys:
  "fst ` set (settings_to_dict s) = {n \<in> set PRESET_PROPERTIES. hasattr n}"
  by (auto simp: settings_to_dict_def image_iff)

lemma unlisted_fields:
  "list_all (\<lambda>n. hasattr n \<and> n \<notin> set PRESET_PROPERTIES)
     [''golden_triangle_scale'', ''golden_triangle_count'', ''vanishing_point_lines'',
      ''show_vanishing_point_grid'', ''vanishing_point_grid_count'',
      ''harmony_triangles_flip'', ''diagonal_method_angle'']"
  by code_simp

lemma golden_triangle_fit_listed:
  "''golden_triangle_fit'' \<in> set PRESET_PROPERTIES \<and> \<not> hasattr ''golden_triangle_fit''"
  by code_simp

text \<open>
  C5. Applying a preset dictionary with \<^verbatim>\<open>dict_to_settings\<close> leaves every property
  whose name is not a key of the dictionary, or is not in the allow-list, at its prior
  value.
\<close>

theorem dict_to_settings_frame:
  "n \<notin> fst ` set data \<or> n \<notin> set PRESET_PROPERTIES \<Longrightarrow> dict_to_settings data s n = s n"
  using dict_to_settings_other dict_to_settings_not_listed by blast

theorem dict_to_settings_frame_witness:
  "''show_thirds'' \<notin> fst ` set [(''show_center'', JBool True)]
   \<and> dict_to_settings [(''show_center'', JBool True)]
        (default_settings(''show_thirds'' := PBool True)) ''show_thirds'' = PBool True
   \<and> dict_to_settings [(''show_center'', JBool True)]
        (default_settings(''show_thirds'' := PBool True)) ''show_center'' = PBool True"
proof -
  have k: "''show_thirds'' \<notin> fst ` set [(''show_center'', JBool True)]" by simp
  have c: "dict_to_settings [(''show_center'', JBool True)]
        (default_settings(''show_thirds'' := PBool True)) ''show_center'' = PBool True"
    by code_simp
  from dict_to_settings_frame [of "''show_thirds''" "[(''show_center'', JBool True)]"
         "default_settings(''show_thirds'' := PBool True)"] k
  have "dict_to_settings [(''show_center'', JBool True)]
        (default_settings(''show_thirds'' := PBool True)) ''show_thirds'' = PBool True"
    by simp
  with k c show ?thesis by blast
qed

lemma load_preset_data_unlisted:
  assumes "u \<notin> set PRESET_PROPERTIES" and "u \<noteq> ''active_preset''"
  shows "snd (snd (load_preset_data preset_name data (gs, s))) u = s u"
proof -
  have d: "dict_to_settings kvs s u = s u" for kvs
    using assms(1) by (simp add: dict_to_settings_not_listed)
  show ?thesis
  proof (cases "load_custom_guides data gs")
    case (Pair e gs')
    show ?thesis
    proof (cases e)
      case (Some err)
      with Pair show ?thesis by (simp add: load_preset_data_def)
    next
      case None
      show ?thesis
      proof (cases data)
        case (JObj kvs)
        with Pair None assms(2) d [of kvs] show ?thesis
          by (auto simp: load_preset_data_def setattr_def split: option.splits sum.splits)
      qed (use Pair None in \<open>simp_all add: load_preset_data_def\<close>)
    qed
  qed
qed

lemma unlisted_not_active_preset:
  "list_all (\<lambda>n. n \<noteq> ''active_preset'')
     [''golden_triangle_scale'', ''golden_triangle_count'', ''vanishing_point_lines'',
      ''show_vanishing_point_grid'', ''vanishing_point_grid_count'',
      ''harmony_triangles_flip'', ''diagonal_method_angle'']"
  by simp

text \<open>
  C10. \<^verbatim>\<open>settings_to_dict\<close> writes, and \<^verbatim>\<open>dict_to_settings\<close> changes, only
  properties that are in \<^verbatim>\<open>PRESET_PROPERTIES\<close> and exist on the settings object. The
  seven properties named below exist but are not in the allow-list: no preset holds
  them and every load keeps their values, also the load operator as a whole, which
  sets \<^verbatim>\<open>active_preset\<close> besides. The allow-list entry
  \<^verbatim>\<open>golden_triangle_fit\<close> names no property: save emits no such key and an entry
  with that key changes nothing on load.
\<close>

theorem preset_allow_list:
  "(\<forall>k \<in> fst ` set (settings_to_dict s). k \<in> set PRESET_PROPERTIES \<and> hasattr k)
   \<and> (dict_to_settings data s n \<noteq> s n \<longrightarrow> n \<in> set PRESET_PROPERTIES \<and> hasattr n)
   \<and> (\<forall>u \<in> set [''golden_triangle_scale'', ''golden_triangle_count'',
                   ''vanishing_point_lines'', ''show_vanishing_point_grid'',
                   ''vanishing_point_grid_count'', ''harmony_triangles_flip'',
                   ''diagonal_method_angle''].
          hasattr u \<and> u \<notin> fst ` set (settings_to_dict s) \<and> dict_to_settings data s u = s u
          \<and> snd (snd (load_preset_data preset_name file_data (gs, s))) u = s u)
   \<and> ''golden_triangle_fit'' \<in> set PRESET_PROPERTIES
   \<and> ''golden_triangle_fit'' \<notin> fst ` set (settings_to_dict s)
   \<and> apply_entry s (''golden_triangle_fit'', v) = s"
proof (intro conjI)
  show "\<forall>k \<in> fst ` set (settings_to_dict s). k \<in> set PRESET_PROPERTIES \<and> hasattr k"
    by (simp add: settings_to_dict_keys)
  show "dict_to_settings data s n \<noteq> s n \<longrightarrow> n \<in> set PRESET_PROPERTIES \<and> hasattr n"
    using dict_to_settings_not_listed by blast
  show "\<forall>u \<in> set [''golden_triangle_scale'', ''golden_triangle_count'',
                   ''vanishing_point_lines'', ''show_vanishing_point_grid'',
                   ''vanishing_point_grid_count'', ''harmony_triangles_flip'',
                   ''diagonal_method_angle''].
          hasattr u \<and> u \<notin> fst ` set (settings_to_dict s) \<and> dict_to_settings data s u = s u
          \<and> snd (snd (load_preset_data preset_name file_data (gs, s))) u = s u"
  proof
    fix u
    assume m: "u \<in> set [''golden_triangle_scale'', ''golden_triangle_count'',
                   ''vanishing_point_lines'', ''show_vanishing_point_grid'',
                   ''vanishing_point_grid_count'', ''harmony_triangles_flip'',
                   ''diagonal_method_angle'']"
    with unlisted_fields have u: "hasattr u \<and> u \<notin> set PRESET_PROPERTIES"
      unfolding list_all_iff by blast
    from m unlisted_not_active_preset have a: "u \<noteq> ''active_preset''"
      unfolding list_all_iff by blast
    from u a have "snd (snd (load_preset_data preset_name file_data (gs, s))) u = s u"
      by (simp add: load_preset_data_unlisted)
    with u show "hasattr u \<and> u \<notin> fst ` set (settings_to_dict s)
        \<and> dict_to_settings data s u = s u
        \<and> snd (snd (load_preset_data preset_name file_data (gs, s))) u = s u"
      by (simp add: settings_to_dict_keys dict_to_settings_not_listed)
  qed
  show "''golden_triangle_fit'' \<in> set PRESET_PROPERTIES"
    using golden_triangle_fit_listed by blast
  show "''golden_triangle_fit'' \<notin> fst ` set (settings_to_dict s)"
    using golden_triangle_fit_listed by (simp add: settings_to_dict_keys)
  show "apply_entry s (''golden_triangle_fit'', v) = s"
    using golden_triangle_fit_listed by (simp add: apply_entry_not_listed)
qed

theorem preset_allow_list_witness:
  "dict_to_settings
     [(''golden_triangle_scale'', JFloat 2), (''golden_triangle_fit'', JBool True),
      (''show_center'', JBool True)] default_settings ''golden_triangle_scale'' = PFloat 1
   \<and> dict_to_settings
     [(''golden_triangle_scale'', JFloat 2), (''golden_triangle_fit'', JBool True),
      (''show_center'', JBool True)] default_settings ''show_center'' = PBool True
   \<and> ''golden_triangle_scale'' \<notin> fst ` set (settings_to_dict default_settings)
   \<and> ''show_center'' \<in> fst ` set (settings_to_dict default_settings)
   \<and> length (settings_to_dict default_settings) = 47"
proof -
  let ?d = "[(''golden_triangle_scale'', JFloat 2), (''golden_triangle_fit'', JBool True),
      (''show_center'', JBool True)]"
  have m: "''golden_triangle_scale''
      \<in> set [''golden_triangle_scale'', ''golden_triangle_count'',
                   ''vanishing_point_lines'', ''show_vanishing_point_grid'',
                   ''vanishing_point_grid_count'', ''harmony_triangles_flip'',
                   ''diagonal_method_angle'']"
    by simp
  from preset_allow_list [where s = default_settings and data = "?d"] m
  have a: "''golden_triangle_scale'' \<notin> fst ` set (settings_to_dict default_settings)
      \<and> dict_to_settings ?d default_settings ''golden_triangle_scale''
          = default_settings ''golden_triangle_scale''"
    by blast
  have d: "default_settings ''golden_triangle_scale'' = PFloat 1"
    by code_simp
  have c: "dict_to_settings ?d default_settings ''show_center'' = PBool True"
    by code_simp
  have k: "''show_center'' \<in> fst ` set (settings_to_dict default_settings)"
    unfolding settings_to_dict_keys by code_simp
  have l: "length (settings_to_dict default_settings) = 47"
    by code_simp
  from a d c k l show ?thesis by simp
qed

subsection \<open>Toggle-all round trip\<close>

lemma guide_props_bool: "list_all (\<lambda>p. field_kind p = Some BoolProperty) guide_props"
  by code_simp

lemma guide_props_distinct: "distinct guide_props"
  by code_simp

lemma stored_not_toggle: "''stored_active_guides'' \<notin> set guide_props"
  by code_simp

lemma stored_kind: "field_kind ''stored_active_guides'' = Some StringProperty"
  by code_simp

lemma guide_props_plain: "list_all (\<lambda>p. CHR '','' \<notin> set p \<and> p \<noteq> []) guide_props"
  by code_simp

lemma setattr_toggle:
  "p \<in> set guide_props \<Longrightarrow> setattr s p (JBool b) = Inr (s(p := PBool b))"
  using guide_props_bool by (auto simp: list_all_iff setattr_def)

lemma hasattr_toggle: "p \<in> set guide_props \<Longrightarrow> hasattr p"
  using guide_props_bool by (auto simp: list_all_iff hasattr_def)

lemma disable_active_result:
  "set ps \<subseteq> set guide_props \<Longrightarrow> distinct ps \<Longrightarrow>
   disable_active ps s acc =
     Inr (\<lambda>q. if q \<in> set ps \<and> truthy (s q) then PBool False else s q,
          acc @ filter (\<lambda>p. truthy (s p)) ps)"
proof (induction ps arbitrary: s acc)
  case Nil
  then show ?case by simp
next
  case (Cons p ps)
  then have p: "p \<in> set guide_props" "p \<notin> set ps" and ps: "set ps \<subseteq> set guide_props" "distinct ps"
    by simp_all
  show ?case
  proof (cases "truthy (s p)")
    case True
    have eq: "filter (\<lambda>q. truthy ((s(p := PBool False)) q)) ps = filter (\<lambda>q. truthy (s q)) ps"
    proof (rule filter_cong [OF refl])
      fix q assume "q \<in> set ps"
      with p(2) have "q \<noteq> p" by blast
      then show "truthy ((s(p := PBool False)) q) = truthy (s q)" by simp
    qed
    have "disable_active (p # ps) s acc = disable_active ps (s(p := PBool False)) (acc @ [p])"
      using True p(1) by (simp add: setattr_toggle)
    also have "\<dots> = Inr (\<lambda>q. if q \<in> set ps \<and> truthy ((s(p := PBool False)) q) then PBool False
                             else (s(p := PBool False)) q,
                        (acc @ [p]) @ filter (\<lambda>q. truthy ((s(p := PBool False)) q)) ps)"
      by (rule Cons.IH [OF ps])
    also have "\<dots> = Inr (\<lambda>q. if q \<in> set (p # ps) \<and> truthy (s q) then PBool False else s q,
                        acc @ filter (\<lambda>q. truthy (s q)) (p # ps))"
    proof -
      have f: "(\<lambda>q. if q \<in> set ps \<and> truthy ((s(p := PBool False)) q) then PBool False
                   else (s(p := PBool False)) q)
             = (\<lambda>q. if q \<in> set (p # ps) \<and> truthy (s q) then PBool False else s q)"
        using True p(2) by (auto simp: fun_eq_iff)
      have g: "(acc @ [p]) @ filter (\<lambda>q. truthy (s q)) ps
             = acc @ filter (\<lambda>q. truthy (s q)) (p # ps)"
        using True by simp
      show ?thesis by (simp only: eq f g)
    qed
    finally show ?thesis .
  next
    case False
    have "disable_active (p # ps) s acc = disable_active ps s acc"
      using False by simp
    also have "\<dots> = Inr (\<lambda>q. if q \<in> set ps \<and> truthy (s q) then PBool False else s q,
                        acc @ filter (\<lambda>q. truthy (s q)) ps)"
      by (rule Cons.IH [OF ps])
    also have "\<dots> = Inr (\<lambda>q. if q \<in> set (p # ps) \<and> truthy (s q) then PBool False else s q,
                        acc @ filter (\<lambda>q. truthy (s q)) (p # ps))"
      using False by (auto simp: fun_eq_iff)
    finally show ?thesis .
  qed
qed

lemma restore_saved_result:
  "set ps \<subseteq> set guide_props \<Longrightarrow>
   restore_saved ps s c = Inr (\<lambda>q. if q \<in> set ps then PBool True else s q, c + length ps)"
proof (induction ps arbitrary: s c)
  case Nil
  then show ?case by simp
next
  case (Cons p ps)
  then have p: "p \<in> set guide_props" and ps: "set ps \<subseteq> set guide_props" by simp_all
  have "restore_saved (p # ps) s c = restore_saved ps (s(p := PBool True)) (c + 1)"
    using p by (simp add: setattr_toggle hasattr_toggle)
  also have "\<dots> = Inr (\<lambda>q. if q \<in> set ps then PBool True else (s(p := PBool True)) q,
                      c + 1 + length ps)"
    by (rule Cons.IH [OF ps])
  also have "\<dots> = Inr (\<lambda>q. if q \<in> set (p # ps) then PBool True else s q, c + length (p # ps))"
    by (auto simp: fun_eq_iff)
  finally show ?case .
qed

lemma split_comma_plain: "CHR '','' \<notin> set x \<Longrightarrow> split_comma (x @ CHR '','' # r) = x # split_comma r"
  by (induction x) (auto simp: Let_def)

lemma split_comma_single: "CHR '','' \<notin> set x \<Longrightarrow> split_comma x = [x]"
  by (induction x) (auto simp: Let_def)

lemma split_join_comma:
  "xs \<noteq> [] \<Longrightarrow> \<forall>x\<in>set xs. CHR '','' \<notin> set x \<Longrightarrow> split_comma (join_comma xs) = xs"
proof (induction xs rule: join_comma.induct)
  case 1
  then show ?case by simp
next
  case (2 x)
  then show ?case by (simp add: split_comma_single)
next
  case (3 x y ys)
  then show ?case by (simp add: split_comma_plain)
qed

lemma join_comma_nonempty: "xs \<noteq> [] \<Longrightarrow> hd xs \<noteq> [] \<Longrightarrow> join_comma xs \<noteq> []"
  by (induction xs rule: join_comma.induct) simp_all

text \<open>
  C4. From any settings with at least one of the 15 visibility toggles on, running the
  toggle-all operator twice succeeds both times; after the first run all toggles are off,
  and after the second the toggles that were on are on again and the others are off.
\<close>

theorem toggle_all_round_trip:
  assumes on: "\<exists>p\<in>set guide_props. truthy (s p)"
  shows "\<exists>s1 s2. toggle_all_guides s = Inr s1
           \<and> toggles s1 = replicate (length guide_props) False
           \<and> toggle_all_guides s1 = Inr s2
           \<and> toggles s2 = toggles s
           \<and> (\<forall>p\<in>set guide_props. (\<exists>b. s p = PBool b) \<longrightarrow> s2 p = s p)"
proof -
  define A where "A = filter (\<lambda>p. truthy (s p)) guide_props"
  define s0 where "s0 = (\<lambda>q. if q \<in> set guide_props \<and> truthy (s q) then PBool False else s q)"
  define s1 where "s1 = s0(''stored_active_guides'' := PStr (join_comma A))"
  define s2 where "s2 = (\<lambda>q. if q \<in> set A then PBool True else s1 q)"
  from on have A_ne: "A \<noteq> []"
    by (auto simp: A_def filter_empty_conv)
  have A_sub: "set A \<subseteq> set guide_props" by (auto simp: A_def)
  have A_plain: "\<forall>x\<in>set A. CHR '','' \<notin> set x \<and> x \<noteq> []"
    using guide_props_plain A_sub by (auto simp: list_all_iff)
  have any: "list_ex (\<lambda>prop. truthy (s prop)) guide_props"
    using on by (simp add: list_ex_iff)
  have first: "toggle_all_guides s = Inr s1"
    using any
    by (simp add: toggle_all_guides_def disable_active_result guide_props_distinct
          setattr_def stored_kind s1_def s0_def A_def)
  have s1_toggle: "s1 p = (if truthy (s p) then PBool False else s p)" if "p \<in> set guide_props" for p
    using that stored_not_toggle by (auto simp: s1_def s0_def)
  then have off: "\<not> truthy (s1 p)" if "p \<in> set guide_props" for p
    using that by simp
  then have none: "\<not> list_ex (\<lambda>prop. truthy (s1 prop)) guide_props"
    by (simp add: list_ex_iff)
  have stored: "s1 ''stored_active_guides'' = PStr (join_comma A)"
    by (simp add: s1_def)
  have "hd A \<in> set A" using A_ne by simp
  with A_plain have "hd A \<noteq> []" by blast
  with A_ne have j: "join_comma A \<noteq> []" by (rule join_comma_nonempty)
  have sp: "split_comma (join_comma A) = A"
    using A_ne A_plain by (intro split_join_comma) auto
  have second: "toggle_all_guides s1 = Inr s2"
    using none j A_ne
    by (simp add: toggle_all_guides_def stored sp restore_saved_result [OF A_sub] s2_def)
  have s2_toggle: "s2 p = (if truthy (s p) then PBool True else s p)" if "p \<in> set guide_props" for p
    using that s1_toggle [OF that] by (auto simp: s2_def A_def)
  have t1: "toggles s1 = replicate (length guide_props) False"
    using off by (simp add: toggles_def map_replicate_const [symmetric] cong: map_cong)
  have t2: "toggles s2 = toggles s"
    unfolding toggles_def by (rule map_cong [OF refl]) (simp add: s2_toggle)
  have t3: "\<forall>p\<in>set guide_props. (\<exists>b. s p = PBool b) \<longrightarrow> s2 p = s p"
    by (auto simp: s2_toggle)
  from first second t1 t2 t3 show ?thesis by blast
qed

theorem toggle_all_round_trip_witness:
  "list_ex (\<lambda>p. truthy (toggle_example p)) guide_props
   \<and> (case toggle_all_guides toggle_example of
         Inl x \<Rightarrow> []
       | Inr s1 \<Rightarrow> (case toggle_all_guides s1 of Inl x \<Rightarrow> [] | Inr s2 \<Rightarrow> toggles s2))
       = toggles toggle_example
   \<and> toggles toggle_example
       = [True, False, False, False, False, True, False, False, False, False, False, False,
          False, False, False]"
proof -
  have h: "list_ex (\<lambda>p. truthy (toggle_example p)) guide_props"
    unfolding toggle_example_def by code_simp
  then have "\<exists>p\<in>set guide_props. truthy (toggle_example p)"
    by (simp add: list_ex_iff)
  from toggle_all_round_trip [OF this] obtain s1 s2 where
    "toggle_all_guides toggle_example = Inr s1" "toggle_all_guides s1 = Inr s2"
    "toggles s2 = toggles toggle_example"
    by blast
  then have r: "(case toggle_all_guides toggle_example of
         Inl x \<Rightarrow> []
       | Inr s1 \<Rightarrow> (case toggle_all_guides s1 of Inl x \<Rightarrow> [] | Inr s2 \<Rightarrow> toggles s2))
       = toggles toggle_example"
    by simp
  have v: "toggles toggle_example
       = [True, False, False, False, False, True, False, False, False, False, False, False,
          False, False, False]"
    unfolding toggle_example_def by code_simp
  from h r v show ?thesis by blast
qed

subsection \<open>Guide positions stay in range\<close>

lemma store_position_x_value: "position_x (store_position_x g v) = max (- 1) (min 1 v)"
  by (simp add: store_position_x_def clamp_opt_def)

lemma store_position_y_value: "position_y (store_position_y g v) = max (- 1) (min 1 v)"
  by (simp add: store_position_y_def clamp_opt_def)

lemma in_range_store_x: "in_range g \<Longrightarrow> in_range (store_position_x g v)"
  by (auto simp: in_range_def store_position_x_def clamp_opt_def)

lemma in_range_store_y: "in_range g \<Longrightarrow> in_range (store_position_y g v)"
  by (auto simp: in_range_def store_position_y_def clamp_opt_def)

lemma in_range_new_guide: "in_range new_guide"
  by (simp add: in_range_def new_guide_def)

lemma in_range_other_fields:
  "in_range g \<Longrightarrow> in_range (g\<lparr>name := n\<rparr>)"
  "in_range g \<Longrightarrow> in_range (g\<lparr>rotation := r\<rparr>)"
  "in_range g \<Longrightarrow> in_range (g\<lparr>orientation := ori\<rparr>)"
  "in_range g \<Longrightarrow> in_range (g\<lparr>color := c\<rparr>)"
  by (simp_all add: in_range_def)

lemma in_range_setters:
  assumes "in_range g"
  shows "set_position_x g v = Inr g' \<Longrightarrow> in_range g'"
    and "set_position_y g v = Inr g' \<Longrightarrow> in_range g'"
    and "set_rotation g v = Inr g' \<Longrightarrow> in_range g'"
    and "set_orientation g v = Inr g' \<Longrightarrow> in_range g'"
    and "set_name g v = Inr g' \<Longrightarrow> in_range g'"
    and "set_color g v = Inr g' \<Longrightarrow> in_range g'"
    and "set_color_item g i v = Inr g' \<Longrightarrow> in_range g'"
  using assms
  by (auto simp: set_position_x_def set_position_y_def set_rotation_def set_orientation_def
        set_name_def set_color_def set_color_item_def in_range_store_x in_range_store_y
        in_range_other_fields
      split: option.splits if_splits json.splits sum.splits pval.splits)

lemma in_range_then_set:
  assumes "in_range (snd r)" and "\<And>g g'. in_range g \<Longrightarrow> f g = Inr g' \<Longrightarrow> in_range g'"
  shows "in_range (snd (then_set r f))"
  using assms by (auto simp: then_set_def split: prod.splits option.splits sum.splits)

lemma in_range_set_color_items: "in_range g \<Longrightarrow> in_range (snd (set_color_items i vs g))"
  by (induction vs arbitrary: i g) (auto split: sum.splits dest: in_range_setters(7))

lemma in_range_load_guide: "in_range (snd (load_guide d))"
proof (cases d)
  case (JObj kvs)
  let ?r = "then_set (then_set (then_set (then_set (None, new_guide)
                     (\<lambda>g. set_position_x g (dict_get kvs ''position_x'' (JFloat 0))))
                     (\<lambda>g. set_position_y g (dict_get kvs ''position_y'' (JFloat 0))))
                     (\<lambda>g. set_rotation g (dict_get kvs ''rotation'' (JFloat 0))))
                     (\<lambda>g. set_orientation g (dict_get kvs ''orientation'' (JStr ''HORIZONTAL'')))"
  have r: "in_range (snd ?r)"
    by (intro in_range_then_set) (auto simp: in_range_new_guide intro: in_range_setters)
  show ?thesis
    using r in_range_set_color_items [of "snd ?r"]
    by (auto simp: JObj load_guide_def Let_def split: prod.splits option.splits)
qed (simp_all add: load_guide_def in_range_new_guide)

lemma in_range_load_guides:
  "\<forall>g\<in>set gs. in_range g \<Longrightarrow> \<forall>g\<in>set (snd (load_guides ds gs)). in_range g"
proof (induction ds arbitrary: gs)
  case Nil
  then show ?case by simp
next
  case (Cons d ds)
  have d: "in_range (snd (load_guide d))" by (rule in_range_load_guide)
  show ?case
  proof (cases "load_guide d")
    case (Pair e g)
    with d have g: "in_range g" by simp
    show ?thesis
    proof (cases e)
      case None
      have "\<forall>g\<in>set (snd (load_guides ds (gs @ [g]))). in_range g"
        by (rule Cons.IH) (use Cons.prems g in auto)
      with Pair None show ?thesis by simp
    next
      case (Some err)
      with Pair Cons.prems g show ?thesis by simp
    qed
  qed
qed

lemma in_range_load_custom_guides:
  assumes "\<forall>g\<in>set gs. in_range g"
  shows "\<forall>g\<in>set (snd (load_custom_guides data gs)). in_range g"
proof (cases data)
  case (JObj kvs)
  have "\<forall>g\<in>set (snd (load_guides items [])). in_range g" for items
    by (rule in_range_load_guides) simp
  with assms show ?thesis
    by (auto simp: JObj load_custom_guides_def split: option.splits)
qed (use assms in \<open>auto simp: load_custom_guides_def\<close>)

lemma in_range_drag_update:
  "in_range g \<Longrightarrow> drag_update self mx my g = Inr g' \<Longrightarrow> in_range g'"
  by (auto simp: drag_update_def Let_def in_range_store_x in_range_store_y split: if_splits)

lemma set_remove_at: "set (remove_at i xs) \<subseteq> set xs"
  by (auto simp: remove_at_def dest: in_set_takeD in_set_dropD)

lemma all_in_range_update:
  "\<forall>g\<in>set gs. in_range g \<Longrightarrow> in_range g' \<Longrightarrow> \<forall>g\<in>set (gs[i := g']). in_range g"
  using set_update_subset_insert [of gs i g'] by auto


lemma move_modal_simps:
  "move_modal self (MOUSEMOVE mx my) gs =
     (if guide_index self < length gs
           then (case drag_update self mx my (gs ! guide_index self) of
                   Inl err \<Rightarrow> Inl err
                 | Inr g \<Rightarrow> Inr (RUNNING_MODAL, gs[guide_index self := g]))
           else Inr (RUNNING_MODAL, gs))"
  "move_modal self LEFTMOUSE_RELEASE gs = Inr (FINISHED, gs)"
  "move_modal self RIGHTMOUSE gs =
     (if guide_index self < length gs
      then Inr (CANCELLED, gs[guide_index self :=
                  store_position_y (store_position_x (gs ! guide_index self)
                    (original_position_x self)) (original_position_y self)])
      else Inr (CANCELLED, gs))"
  "move_modal self ESC gs =
     (if guide_index self < length gs
      then Inr (CANCELLED, gs[guide_index self :=
                  store_position_y (store_position_x (gs ! guide_index self)
                    (original_position_x self)) (original_position_y self)])
      else Inr (CANCELLED, gs))"
  "move_modal self DEL_PRESS gs = Inr (FINISHED, remove_at (guide_index self) gs)"
  "move_modal self OTHER_EVENT gs = Inr (RUNNING_MODAL, gs)"
  by (simp_all add: move_modal_def Let_def)

lemma drag_modal_simps:
  "drag_modal self (MOUSEMOVE mx my) gs =
     (if guide_index self < length gs
           then (case drag_update self mx my (gs ! guide_index self) of
                   Inl err \<Rightarrow> Inl err
                 | Inr g \<Rightarrow> Inr (RUNNING_MODAL, gs[guide_index self := g]))
           else Inr (RUNNING_MODAL, gs))"
  "drag_modal self LEFTMOUSE_RELEASE gs = Inr (FINISHED, gs)"
  "drag_modal self RIGHTMOUSE gs = Inr (CANCELLED, butlast gs)"
  "drag_modal self ESC gs = Inr (CANCELLED, butlast gs)"
  "drag_modal self DEL_PRESS gs = Inr (RUNNING_MODAL, gs)"
  "drag_modal self OTHER_EVENT gs = Inr (RUNNING_MODAL, gs)"
  by (simp_all add: drag_modal_def Let_def)

lemma in_range_dragged:
  assumes "\<forall>g\<in>set gs. in_range g"
    and "(if i < length gs
           then (case drag_update self mx my (gs ! i) of
                   Inl err \<Rightarrow> Inl err
                 | Inr g \<Rightarrow> Inr (RUNNING_MODAL, gs[i := g]))
           else Inr (RUNNING_MODAL, gs)) = Inr (st, gs')"
  shows "\<forall>g\<in>set gs'. in_range g"
proof (cases "i < length gs")
  case True
  with assms(2) obtain g' where
    g': "drag_update self mx my (gs ! i) = Inr g'" and gs': "gs' = gs[i := g']"
    by (cases "drag_update self mx my (gs ! i)") auto
  from True assms(1) have "in_range (gs ! i)" by simp
  with g' have "in_range g'" by (rule in_range_drag_update [rotated])
  with assms(1) show ?thesis unfolding gs' by (rule all_in_range_update)
next
  case False
  with assms show ?thesis by simp
qed

lemma in_range_move_modal:
  assumes "\<forall>g\<in>set gs. in_range g" and "move_modal self ev gs = Inr (st, gs')"
  shows "\<forall>g\<in>set gs'. in_range g"
proof (cases ev)
  case (MOUSEMOVE mx my)
  from assms show ?thesis
    unfolding MOUSEMOVE move_modal_simps by (rule in_range_dragged)
next
  case LEFTMOUSE_RELEASE
  with assms show ?thesis by (simp add: move_modal_simps)
next
  case RIGHTMOUSE
  have "in_range (store_position_y (store_position_x (gs ! guide_index self)
                    (original_position_x self)) (original_position_y self))"
    if "guide_index self < length gs"
    using that assms(1) by (simp add: in_range_store_x in_range_store_y)
  then have r: "guide_index self < length gs \<Longrightarrow>
       \<forall>g\<in>set (gs[guide_index self := store_position_y (store_position_x (gs ! guide_index self)
                    (original_position_x self)) (original_position_y self)]). in_range g"
    using assms(1) by (intro all_in_range_update)
  show ?thesis
  proof (cases "guide_index self < length gs")
    case True
    with assms(2) r show ?thesis by (simp add: RIGHTMOUSE move_modal_simps)
  next
    case False
    with assms show ?thesis by (simp add: RIGHTMOUSE move_modal_simps)
  qed
next
  case ESC
  have "in_range (store_position_y (store_position_x (gs ! guide_index self)
                    (original_position_x self)) (original_position_y self))"
    if "guide_index self < length gs"
    using that assms(1) by (simp add: in_range_store_x in_range_store_y)
  then have r: "guide_index self < length gs \<Longrightarrow>
       \<forall>g\<in>set (gs[guide_index self := store_position_y (store_position_x (gs ! guide_index self)
                    (original_position_x self)) (original_position_y self)]). in_range g"
    using assms(1) by (intro all_in_range_update)
  show ?thesis
  proof (cases "guide_index self < length gs")
    case True
    with assms(2) r show ?thesis by (simp add: ESC move_modal_simps)
  next
    case False
    with assms show ?thesis by (simp add: ESC move_modal_simps)
  qed
next
  case DEL_PRESS
  with assms show ?thesis
    using set_remove_at [of "guide_index self" gs] by (auto simp: move_modal_simps)
next
  case OTHER_EVENT
  with assms show ?thesis by (simp add: move_modal_simps)
qed

lemma in_range_drag_modal:
  assumes "\<forall>g\<in>set gs. in_range g" and "drag_modal self ev gs = Inr (st, gs')"
  shows "\<forall>g\<in>set gs'. in_range g"
proof (cases ev)
  case (MOUSEMOVE mx my)
  from assms show ?thesis
    unfolding MOUSEMOVE drag_modal_simps by (rule in_range_dragged)
next
  case RIGHTMOUSE
  with assms(2) have "gs' = butlast gs" by (simp add: drag_modal_simps)
  with assms(1) show ?thesis by (blast dest: in_set_butlastD)
next
  case ESC
  with assms(2) have "gs' = butlast gs" by (simp add: drag_modal_simps)
  with assms(1) show ?thesis by (blast dest: in_set_butlastD)
qed (use assms in \<open>simp_all add: drag_modal_simps\<close>)

lemma in_range_drag_invoke:
  assumes "\<forall>g\<in>set gs. in_range g"
  shows "drag_invoke v2r render rs mx my gs = Inr (st, self, gs') \<Longrightarrow> \<forall>g\<in>set gs'. in_range g"
    and "drag_invoke v2r render rs mx my gs = Inl (err, gs') \<Longrightarrow> \<forall>g\<in>set gs'. in_range g"
  using assms
  by (auto simp: drag_invoke_def Let_def in_range_store_x in_range_store_y in_range_new_guide
        in_range_other_fields split: option.splits if_splits prod.splits)

lemma in_range_add: 
  "\<forall>g\<in>set gs. in_range g \<Longrightarrow> \<forall>g\<in>set (add_custom_guide str ori gs). in_range g"
  by (auto simp: add_custom_guide_def in_range_store_x in_range_store_y in_range_new_guide
        in_range_other_fields)

lemma reachable_in_range: "reachable st \<Longrightarrow> \<forall>g\<in>set (fst st). in_range g"
proof (induction rule: reachable.induct)
  case start
  then show ?case by simp
next
  case (add gs m str ori)
  then show ?case by (simp add: in_range_add)
next
  case (remove gs m i)
  then show ?case using set_remove_at by fastforce
next
  case (clear gs m)
  then show ?case by simp
next
  case (edit_x gs m i v g)
  then have "in_range g" by (auto intro: in_range_setters(1))
  with edit_x.IH show ?case by (simp only: fst_conv) (rule all_in_range_update)
next
  case (edit_y gs m i v g)
  then have "in_range g" by (auto intro: in_range_setters(2))
  with edit_y.IH show ?case by (simp only: fst_conv) (rule all_in_range_update)
next
  case (load gs m data)
  then show ?case by (simp add: in_range_load_custom_guides)
next
  case (move_start gs v2r render mx my self)
  then show ?case by simp
next
  case (move_event gs self ev st gs')
  then show ?case using in_range_move_modal by auto
next
  case (drag_start gs v2r render ruler_size mx my self gs')
  then show ?case using in_range_drag_invoke(1) by auto
next
  case (drag_event gs self ev st gs')
  then show ?case using in_range_drag_modal by auto
next
  case (drag_start_raised gs v2r render ruler_size mx my err gs')
  then show ?case using in_range_drag_invoke(2) by auto
next
  case (modal_raised gs m)
  then show ?case by simp
qed

lemma set_position_value:
  "set_position_x g j = Inr g' \<Longrightarrow> \<exists>x. as_number j = Some x \<and> position_x g' = max (- 1) (min 1 x)"
  "set_position_y g j = Inr g' \<Longrightarrow> \<exists>x. as_number j = Some x \<and> position_y g' = max (- 1) (min 1 x)"
  by (auto simp: set_position_x_def set_position_y_def store_position_x_value
        store_position_y_value split: option.splits)

lemma drag_update_value:
  "drag_update self mx my g = Inr g' \<Longrightarrow>
    (if orientation g = HORIZONTAL
     then position_y g' = max (- 1) (min 1
            ((real_of_int my - (frame_y self + frame_height self / 2)) / (frame_height self / 2)))
     else position_x g' = max (- 1) (min 1
            ((real_of_int mx - (frame_x self + frame_width self / 2)) / (frame_width self / 2))))"
  by (auto simp: drag_update_def Let_def store_position_x_def store_position_y_def clamp_opt_def
        split: if_splits)

lemma then_set_position_x:
  assumes "then_set r f = (None, g)" and "\<And>h h'. f h = Inr h' \<Longrightarrow> position_x h' = position_x h"
  shows "\<exists>h. r = (None, h) \<and> position_x g = position_x h"
  using assms by (auto simp: then_set_def split: prod.splits option.splits sum.splits)

lemma setters_keep_position_x:
  "set_position_y h v = Inr h' \<Longrightarrow> position_x h' = position_x h"
  "set_rotation h v = Inr h' \<Longrightarrow> position_x h' = position_x h"
  "set_orientation h v = Inr h' \<Longrightarrow> position_x h' = position_x h"
  "set_color_item h i v = Inr h' \<Longrightarrow> position_x h' = position_x h"
  by (auto simp: set_position_y_def store_position_y_def set_rotation_def set_orientation_def
        set_color_item_def split: option.splits if_splits)

lemma set_color_items_position_x:
  "set_color_items i vs h = (None, h') \<Longrightarrow> position_x h' = position_x h"
  by (induction vs arbitrary: i h) (auto split: sum.splits dest: setters_keep_position_x(4))

lemma load_guide_value:
  assumes "load_guide (JObj kvs) = (None, g)"
  shows "\<exists>x. as_number (dict_get kvs ''position_x'' (JFloat 0)) = Some x
          \<and> position_x g = max (- 1) (min 1 x)"
proof -
  let ?r1 = "then_set (None, new_guide)
               (\<lambda>g. set_position_x g (dict_get kvs ''position_x'' (JFloat 0)))"
  let ?r2 = "then_set ?r1 (\<lambda>g. set_position_y g (dict_get kvs ''position_y'' (JFloat 0)))"
  let ?r3 = "then_set ?r2 (\<lambda>g. set_rotation g (dict_get kvs ''rotation'' (JFloat 0)))"
  let ?r4 = "then_set ?r3
               (\<lambda>g. set_orientation g (dict_get kvs ''orientation'' (JStr ''HORIZONTAL'')))"
  from assms obtain h4 where h4: "?r4 = (None, h4)" and g4: "position_x g = position_x h4"
    by (auto simp: load_guide_def Let_def split: prod.splits option.splits
          dest: set_color_items_position_x)
  from then_set_position_x [OF h4] obtain h3 where
    h3: "?r3 = (None, h3)" and g3: "position_x h4 = position_x h3"
    using setters_keep_position_x(3) by blast
  from then_set_position_x [OF h3] obtain h2 where
    h2: "?r2 = (None, h2)" and g2: "position_x h3 = position_x h2"
    using setters_keep_position_x(2) by blast
  from then_set_position_x [OF h2] obtain h1 where
    h1: "?r1 = (None, h1)" and g1: "position_x h2 = position_x h1"
    using setters_keep_position_x(1) by blast
  from h1 have "set_position_x new_guide (dict_get kvs ''position_x'' (JFloat 0)) = Inr h1"
    by (auto simp: then_set_def split: sum.splits)
  from set_position_value(1) [OF this] g1 g2 g3 g4 show ?thesis by simp
qed

text \<open>
  C2. In every state reachable through the operations that write guide lines (add,
  remove, clear, property edit, preset load, and the invoke and modal handlers of the
  move and drag-create operators) every guide has both position components in [-1, 1].
  Each write of a position stores the input clamped: max(-1, min(1, v)) for a float v,
  for a value assigned from a preset, and for the normalised mouse offset of a drag.
\<close>

theorem positions_clamped:
  "(reachable (gs, m) \<longrightarrow> (\<forall>g\<in>set gs. in_range g))
   \<and> position_x (store_position_x g v) = max (- 1) (min 1 v)
   \<and> position_y (store_position_y g v) = max (- 1) (min 1 v)
   \<and> (set_position_x g j = Inr g' \<longrightarrow>
        (\<exists>x. as_number j = Some x \<and> position_x g' = max (- 1) (min 1 x)))
   \<and> (set_position_y g j = Inr g' \<longrightarrow>
        (\<exists>x. as_number j = Some x \<and> position_y g' = max (- 1) (min 1 x)))
   \<and> (drag_update self mx my g = Inr g' \<longrightarrow>
        (if orientation g = HORIZONTAL
         then position_y g' = max (- 1) (min 1
                ((real_of_int my - (frame_y self + frame_height self / 2))
                   / (frame_height self / 2)))
         else position_x g' = max (- 1) (min 1
                ((real_of_int mx - (frame_x self + frame_width self / 2))
                   / (frame_width self / 2)))))
   \<and> (load_guide (JObj kvs) = (None, g') \<longrightarrow>
        (\<exists>x. as_number (dict_get kvs ''position_x'' (JFloat 0)) = Some x
             \<and> position_x g' = max (- 1) (min 1 x)))"
proof (intro conjI impI)
  assume "reachable (gs, m)"
  from reachable_in_range [OF this] show "\<forall>g\<in>set gs. in_range g" by simp
next
  show "position_x (store_position_x g v) = max (- 1) (min 1 v)"
    by (rule store_position_x_value)
next
  show "position_y (store_position_y g v) = max (- 1) (min 1 v)"
    by (rule store_position_y_value)
next
  assume "set_position_x g j = Inr g'"
  then show "\<exists>x. as_number j = Some x \<and> position_x g' = max (- 1) (min 1 x)"
    by (rule set_position_value(1))
next
  assume "set_position_y g j = Inr g'"
  then show "\<exists>x. as_number j = Some x \<and> position_y g' = max (- 1) (min 1 x)"
    by (rule set_position_value(2))
next
  assume "drag_update self mx my g = Inr g'"
  then show "if orientation g = HORIZONTAL
         then position_y g' = max (- 1) (min 1
                ((real_of_int my - (frame_y self + frame_height self / 2))
                   / (frame_height self / 2)))
         else position_x g' = max (- 1) (min 1
                ((real_of_int mx - (frame_x self + frame_width self / 2))
                   / (frame_width self / 2)))"
    by (rule drag_update_value)
next
  assume "load_guide (JObj kvs) = (None, g')"
  then show "\<exists>x. as_number (dict_get kvs ''position_x'' (JFloat 0)) = Some x
             \<and> position_x g' = max (- 1) (min 1 x)"
    by (rule load_guide_value)
qed

theorem positions_clamped_witness:
  "reachable (example_dragged, Moving example_op)
   \<and> map position_x example_dragged = [1]
   \<and> list_all in_range example_dragged"
proof -
  have e1: "move_invoke example_v2r example_render 100 50 example_guides
              = (RUNNING_MODAL, Some example_op)"
    by (simp add: move_invoke_def invoke_frame_def example_v2r_def example_render_def
          example_guides_def add_custom_guide_def store_position_x_def store_position_y_def
          new_guide_def clamp_opt_def example_op_def Let_def)
  have e2: "move_modal example_op (MOUSEMOVE 270 50) example_guides
              = Inr (RUNNING_MODAL, example_dragged)"
    by (simp add: example_dragged_def move_modal_simps example_guides_def add_custom_guide_def
          example_op_def drag_update_def)
  have e3: "map position_x example_dragged = [1]"
    by (simp add: example_dragged_def move_modal_simps example_guides_def add_custom_guide_def
          example_op_def drag_update_def store_position_x_def store_position_y_def
          new_guide_def clamp_opt_def Let_def)
  have "reachable (example_guides, Idle)"
    unfolding example_guides_def by (intro reachable.add reachable.start)
  from reachable.move_start [OF this e1]
  have "reachable (example_guides, Moving example_op)" .
  from reachable.move_event [OF this e2]
  have r: "reachable (example_dragged, Moving example_op)"
    by (simp add: after_modal_def)
  with positions_clamped [of example_dragged "Moving example_op"]
  have "\<forall>g\<in>set example_dragged. in_range g" by blast
  then have "list_all in_range example_dragged" by (simp add: list_all_iff)
  with r e3 show ?thesis by blast
qed

subsection \<open>Malformed serialized guide lines\<close>

text \<open>Every scanner leaves a shorter text, so \<open>scanstring\<close> and \<open>tokens\<close> terminate.\<close>

lemma surrogate_low_rest: "surrogate_low uni s = Some (code, r) \<Longrightarrow> length r < length s"
  by (auto simp: surrogate_low_def split: list.splits option.splits if_splits)

lemma escape_rest:
  assumes "escape s = Some (chars, r)"
  shows "length r < length s"
proof (cases s)
  case Nil
  with assms show ?thesis by (simp add: escape_def)
next
  case (Cons e t)
  show ?thesis
  proof (cases "e = CHR ''u''")
    case False
    with assms Cons show ?thesis by (auto simp: escape_def split: option.splits)
  next
    case True
    with assms Cons obtain h1 h2 h3 h4 r1 uni where
      t: "t = h1 # h2 # h3 # h4 # r1" and h: "hex4 h1 h2 h3 h4 = Some uni"
      by (auto simp: escape_def split: list.splits option.splits)
    show ?thesis
    proof (cases "surrogate_low uni r1")
      case None
      with assms Cons True t h show ?thesis by (simp add: escape_def)
    next
      case (Some p)
      obtain code r2 where p: "p = (code, r2)" by (cases p)
      from surrogate_low_rest [of uni r1 code r2] Some p have "length r2 < length r1" by simp
      with assms Cons True t h Some p show ?thesis by (simp add: escape_def)
    qed
  qed
qed

termination scanstring
proof (relation "measure (\<lambda>(acc, s). length s)")
  show "wf (measure (\<lambda>(acc, s). length s))" by simp
next
  fix acc c cs x chars r
  assume "escape cs = Some x" and "(chars, r) = x"
  then have "escape cs = Some (chars, r)" by simp
  from escape_rest [OF this]
  show "((acc @ chars, r), (acc, c # cs)) \<in> measure (\<lambda>(acc, s). length s)" by simp
next
  fix acc :: string and c :: char and cs :: string
  show "((acc @ [c], cs), (acc, c # cs)) \<in> measure (\<lambda>(acc, s). length s)" by simp
qed

lemma scanstring_rest: "scanstring acc s = Some (str, r) \<Longrightarrow> length r < length s"
proof (induction acc s rule: scanstring.induct)
  case (1 acc)
  then show ?case by simp
next
  case (2 acc c cs)
  show ?case
  proof (cases "c = CHR 0x22")
    case True
    with "2.prems" show ?thesis by simp
  next
    case nq: False
    show ?thesis
    proof (cases "c = CHR 0x5C")
      case True
      with nq "2.prems" obtain chars r' where
        e: "escape cs = Some (chars, r')" and s: "scanstring (acc @ chars) r' = Some (str, r)"
        by (auto split: option.splits)
      from "2.IH"(1) [OF nq True e refl s] escape_rest [OF e] show ?thesis by simp
    next
      case False
      with nq "2.prems" have c: "\<not> (of_char c :: nat) < 0x20"
        and s: "scanstring (acc @ [c]) cs = Some (str, r)"
        by (auto split: if_splits)
      from "2.IH"(2) [OF nq False c s] show ?thesis by simp
    qed
  qed
qed

declare scanstring.simps [simp del]

lemma scan_number_rest: "scan_number s = Some (v, r) \<Longrightarrow> length r < length s"
proof -
  have d: "\<And>xs. length (dropWhile is_digit xs) \<le> length xs"
    by (rule length_dropWhile_le)
  have i: "\<And>a ip b. int_part a = Some (ip, b) \<Longrightarrow> length b < length a"
    using d by (auto simp: int_part_def split: list.splits if_splits) (metis d le_imp_less_Suc length_Cons dropWhile.simps(2))
  have f: "\<And>a fp b. frac_part a = (fp, b) \<Longrightarrow> length b \<le> length a"
    by (auto simp: frac_part_def split: list.splits if_splits intro: le_SucI d)
  have e: "\<And>a ep b. exp_part a = (ep, b) \<Longrightarrow> length b \<le> length a"
    by (auto simp: exp_part_def split: list.splits if_splits intro: le_SucI d)
  assume "scan_number s = Some (v, r)"
  then obtain ip s2 fp s3 ep where
    a: "int_part (if s \<noteq> [] \<and> hd s = CHR ''-'' then tl s else s) = Some (ip, s2)"
    and b: "frac_part s2 = (fp, s3)" and c: "exp_part s3 = (ep, r)"
    by (auto simp: scan_number_def Let_def split: option.splits prod.splits if_splits)
  have "length (if s \<noteq> [] \<and> hd s = CHR ''-'' then tl s else s) \<le> length s"
    by simp
  with i [OF a] f [OF b] e [OF c] show ?thesis by linarith
qed

lemma scan_literal_rest: "lit \<noteq> [] \<Longrightarrow> scan_literal lit v s = Some (t, r) \<Longrightarrow> length r < length s"
  by (cases s; cases lit) (auto simp: scan_literal_def split: if_splits)

lemma scan_standard_rest:
  assumes "scan_standard s = Some (t, r)"
  shows "length r < length s"
proof (cases s)
  case Nil
  with assms show ?thesis by (simp add: scan_standard_def)
next
  case (Cons c cs)
  consider (str) str where "scanstring [] cs = Some (str, r)"
    | (one) "r = cs"
    | (lit) l v where "l \<noteq> []" "scan_literal l v s = Some (t, r)"
    | (num) v where "scan_number s = Some (v, r)"
    using assms unfolding scan_standard_def Cons list.case
    by (simp split: if_splits option.splits prod.splits) blast+
  then show ?thesis
  proof cases
    case str
    from scanstring_rest [OF this] show ?thesis by (simp add: Cons)
  next
    case one
    then show ?thesis by (simp add: Cons)
  next
    case lit
    then show ?thesis by (rule scan_literal_rest)
  next
    case num
    then show ?thesis by (rule scan_number_rest)
  qed
qed

lemma scan_constant_rest:
  assumes "scan_constant s = Some (t, r)"
  shows "length r < length s"
proof -
  from assms obtain l v where "l \<noteq> []" "scan_literal l v s = Some (t, r)"
    unfolding scan_constant_def by (simp split: list.splits if_splits) blast+
  then show ?thesis by (rule scan_literal_rest)
qed

lemma scan_once_rest:
  assumes "scan_once a s = Some (t, r)"
  shows "length r < length s"
  using assms scan_standard_rest [of s t r] scan_constant_rest [of s t r]
  by (simp add: scan_once_def split: option.splits if_splits)

termination tokens
proof (relation "measure (\<lambda>(a, s). length s)")
  show "wf (measure (\<lambda>(a, s). length s))" by simp
next
  fix allow_constants s c cs x t r
  assume d: "dropWhile is_ws s = c # cs"
    and s: "scan_once allow_constants (c # cs) = Some x" and x: "(t, r) = x"
  from s x have "length r < length (c # cs)" by (auto dest: scan_once_rest)
  moreover have "length (dropWhile is_ws s) \<le> length s" by (rule length_dropWhile_le)
  ultimately show "((allow_constants, r), (allow_constants, s)) \<in> measure (\<lambda>(a, s). length s)"
    using d by simp
qed

declare tokens.simps [simp del]

text \<open>A text that is valid JSON parses to the same value with the constants allowed.\<close>

lemma scan_once_constants:
  "scan_once False s = Some x \<Longrightarrow> scan_once True s = Some x"
  by (simp add: scan_once_def split: option.splits)

lemma tokens_constants:
  "tokens False s = Some ts \<Longrightarrow> tokens True s = Some ts"
proof (induction "length s" arbitrary: s ts rule: less_induct)
  case less
  show ?case
  proof (cases "dropWhile is_ws s")
    case Nil
    from less.prems show ?thesis unfolding tokens.simps [of _ s] Nil by simp
  next
    case (Cons c cs)
    with less.prems obtain t r ts' where
      so: "scan_once False (c # cs) = Some (t, r)" and tr: "tokens False r = Some ts'"
      and ts: "ts = t # ts'"
      by (auto simp: tokens.simps [of False s] split: option.splits)
    from scan_once_rest [OF so] have "length r < length (c # cs)" .
    also have "length (c # cs) \<le> length s"
      unfolding Cons [symmetric] by (rule length_dropWhile_le)
    finally have "tokens True r = Some ts'" using tr by (rule less.hyps)
    with scan_once_constants [OF so] Cons ts show ?thesis
      by (simp add: tokens.simps [of True s])
  qed
qed

lemma loads_with_constants:
  "loads_with False s = Inr v \<Longrightarrow> loads_with True s = Inr v"
  by (auto simp: loads_with_def split: option.splits dest: tokens_constants)

lemma json_loads_raises:
  assumes "json_loads s = Inl err"
  shows "err = ValueError" and "\<not> valid_json s"
proof -
  from assms show "err = ValueError"
    by (auto simp: json_loads_def loads_with_def split: option.splits)
  show "\<not> valid_json s"
  proof
    assume "valid_json s"
    then obtain v where "loads_with False s = Inr v"
      by (auto simp: valid_json_def split: sum.splits)
    then have "json_loads s = Inr v"
      unfolding json_loads_def by (rule loads_with_constants)
    with assms show False by simp
  qed
qed

text \<open>A text without constants is scanned to the same tokens when they are not allowed.\<close>

lemma scan_number_finite: "scan_number s = Some (v, r) \<Longrightarrow> \<not> is_constant (TValue v)"
  by (auto simp: scan_number_def Let_def is_constant_def split: option.splits prod.splits if_splits)

lemma scan_standard_finite: "scan_standard s = Some (t, r) \<Longrightarrow> \<not> is_constant t"
proof (cases s)
  case Nil
  then show "scan_standard s = Some (t, r) \<Longrightarrow> \<not> is_constant t"
    by (simp add: scan_standard_def)
next
  case (Cons c cs)
  assume a: "scan_standard s = Some (t, r)"
  consider (str) str where "t = TString str"
    | (one) "t \<in> {LBrace, RBrace, LBracket, RBracket, Colon, Comma}"
    | (lit) "t \<in> {TValue PyNone, TValue (PyBool True), TValue (PyBool False)}"
    | (num) v where "scan_number s = Some (v, r)" "t = TValue v"
    using a unfolding scan_standard_def Cons list.case
    by (simp add: scan_literal_def split: if_splits option.splits prod.splits) blast+
  then show "\<not> is_constant t"
  proof cases
    case num
    from scan_number_finite [OF num(1)] num(2) show ?thesis by simp
  qed (auto simp: is_constant_def)
qed

lemma scan_once_standard:
  "scan_once True s = Some (t, r) \<Longrightarrow> \<not> is_constant t \<Longrightarrow> scan_once False s = Some (t, r)"
  by (auto simp: scan_once_def scan_constant_def scan_literal_def is_constant_def
           split: option.splits list.splits if_splits)

lemma tokens_standard:
  "tokens True s = Some ts \<Longrightarrow> \<not> list_ex is_constant ts \<Longrightarrow> tokens False s = Some ts"
proof (induction "length s" arbitrary: s ts rule: less_induct)
  case less
  show ?case
  proof (cases "dropWhile is_ws s")
    case Nil
    from less.prems(1) show ?thesis unfolding tokens.simps [of _ s] Nil by simp
  next
    case (Cons c cs)
    with less.prems(1) obtain t r ts' where
      so: "scan_once True (c # cs) = Some (t, r)" and tr: "tokens True r = Some ts'"
      and ts: "ts = t # ts'"
      by (auto simp: tokens.simps [of True s] split: option.splits)
    from less.prems(2) ts have nt: "\<not> is_constant t" and nts: "\<not> list_ex is_constant ts'"
      by simp_all
    from scan_once_rest [OF so] have "length r < length (c # cs)" .
    also have "length (c # cs) \<le> length s"
      unfolding Cons [symmetric] by (rule length_dropWhile_le)
    finally have "tokens False r = Some ts'" using tr nts by (rule less.hyps)
    with scan_once_standard [OF so nt] Cons ts show ?thesis
      by (simp add: tokens.simps [of False s])
  qed
qed

lemma json_loads_beyond_json:
  assumes "json_loads s = Inr v" and "\<not> valid_json s"
  shows "uses_constants s"
proof (rule ccontr)
  assume n: "\<not> uses_constants s"
  from assms(1) obtain ts where t: "tokens True s = Some ts"
    and p: "parse_tokens (AValue, []) ts = Some v"
    by (auto simp: json_loads_def loads_with_def split: option.splits)
  from n t have "\<not> list_ex is_constant ts" by (simp add: uses_constants_def)
  with t have "tokens False s = Some ts" by (rule tokens_standard)
  with p have "loads_with False s = Inr v" by (simp add: loads_with_def)
  then have "valid_json s" by (simp add: valid_json_def)
  with assms(2) show False by simp
qed

lemma json_loads_cases: "json_loads s = Inl ValueError \<or> (\<exists>v. json_loads s = Inr v)"
  by (auto simp: json_loads_def loads_with_def split: option.splits)

text \<open>
  C9, as amended. Writing \<^verbatim>\<open>custom_guides_data\<close> with the empty string, or with a string
  that is not valid JSON and does not use the constants \<^verbatim>\<open>NaN\<close>, \<^verbatim>\<open>Infinity\<close> and
  \<^verbatim>\<open>-Infinity\<close>, returns without raising and leaves the guide collection as it was: the
  deserializer returns before it clears the collection. That is the case exactly when
  \<^verbatim>\<open>json.loads\<close> raises, which it does with \<^verbatim>\<open>ValueError\<close> only and on text that is
  not valid JSON only. Every string \<^verbatim>\<open>json.loads\<close> accepts clears the collection first:
  the result is the one on an empty collection.
\<close>

theorem deserialize_guides_malformed:
  "(val = [] \<or> (\<not> valid_json val \<and> \<not> uses_constants val) \<longrightarrow>
      deserialize_guides guides_collection val = (Returned, guides_collection))
   \<and> (json_loads val = Inl ValueError \<longrightarrow>
        deserialize_guides guides_collection val = (Returned, guides_collection))
   \<and> (json_loads val = Inl err \<longrightarrow> err = ValueError \<and> \<not> valid_json val)
   \<and> (val \<noteq> [] \<and> json_loads val = Inr data \<longrightarrow>
        deserialize_guides guides_collection val = deserialize_guides [] val)"
proof (intro conjI impI)
  assume "val = [] \<or> (\<not> valid_json val \<and> \<not> uses_constants val)"
  then show "deserialize_guides guides_collection val = (Returned, guides_collection)"
  proof
    assume "val = []"
    then show ?thesis by (simp add: deserialize_guides_def)
  next
    assume a: "\<not> valid_json val \<and> \<not> uses_constants val"
    from json_loads_cases [of val] have "json_loads val = Inl ValueError"
    proof
      assume "\<exists>v. json_loads val = Inr v"
      then obtain v where "json_loads val = Inr v" ..
      with a json_loads_beyond_json [of val v] show ?thesis by simp
    qed
    then show ?thesis by (simp add: deserialize_guides_def)
  qed
next
  assume "json_loads val = Inl ValueError"
  then show "deserialize_guides guides_collection val = (Returned, guides_collection)"
    by (simp add: deserialize_guides_def)
next
  assume "json_loads val = Inl err"
  then show "err = ValueError" and "\<not> valid_json val"
    by (rule json_loads_raises)+
next
  assume "val \<noteq> [] \<and> json_loads val = Inr data"
  then show "deserialize_guides guides_collection val = deserialize_guides [] val"
    by (simp add: deserialize_guides_def)
qed

theorem deserialize_guides_malformed_witness:
  "deserialize_guides example_guides [] = (Returned, example_guides)
   \<and> \<not> valid_json ''{bad'' \<and> \<not> uses_constants ''{bad''
   \<and> deserialize_guides example_guides ''{bad'' = (Returned, example_guides)
   \<and> json_loads ''[1, NaN'' = Inl ValueError
   \<and> deserialize_guides example_guides ''[1, NaN'' = (Returned, example_guides)
   \<and> example_text \<noteq> []
   \<and> json_loads example_text
       = Inr (PyList
               [PyDict [(''name'', PyStr ''Left third''), (''position_x'', PyFloat (- (1 / 2))),
                        (''orientation'', PyStr ''VERTICAL'')],
                PyDict [(''position_y'', PyInt 2),
                        (''color'', PyList [PyInt 1, PyFloat (1 / 2), PyInt 0, PyInt 1])]])
   \<and> deserialize_guides example_guides example_text = deserialize_guides [] example_text
   \<and> deserialize_guides [] example_text
       = (Returned,
          [\<lparr>name = ''Left third'', position_x = - (1 / 2), position_y = 0, rotation = 0,
            orientation = VERTICAL, color = [0, 2 / 5, 1, 1 / 2]\<rparr>,
           \<lparr>name = ''Guide'', position_x = 0, position_y = 1, rotation = 0,
            orientation = HORIZONTAL, color = [1, 1 / 2, 0, 1]\<rparr>])
   \<and> example_guides \<noteq> []"
proof -
  have a: "deserialize_guides example_guides [] = (Returned, example_guides)"
    using deserialize_guides_malformed [where val = "[]" and guides_collection = example_guides]
    by blast
  have b: "\<not> valid_json ''{bad''" and c: "\<not> uses_constants ''{bad''"
    by code_simp+
  with deserialize_guides_malformed [where val = "''{bad''" and guides_collection = example_guides]
  have d: "deserialize_guides example_guides ''{bad'' = (Returned, example_guides)"
    by blast
  have e: "json_loads ''[1, NaN'' = Inl ValueError"
    by code_simp
  with deserialize_guides_malformed [where val = "''[1, NaN''" and guides_collection = example_guides]
  have f: "deserialize_guides example_guides ''[1, NaN'' = (Returned, example_guides)"
    by blast
  have g: "example_text \<noteq> []"
    by code_simp
  have h: "json_loads example_text
       = Inr (PyList
               [PyDict [(''name'', PyStr ''Left third''), (''position_x'', PyFloat (- (1 / 2))),
                        (''orientation'', PyStr ''VERTICAL'')],
                PyDict [(''position_y'', PyInt 2),
                        (''color'', PyList [PyInt 1, PyFloat (1 / 2), PyInt 0, PyInt 1])]])"
    by code_simp
  from g h deserialize_guides_malformed [where val = example_text
      and guides_collection = example_guides]
  have i: "deserialize_guides example_guides example_text = deserialize_guides [] example_text"
    by blast
  have j: "deserialize_guides [] example_text
       = (Returned,
          [\<lparr>name = ''Left third'', position_x = - (1 / 2), position_y = 0, rotation = 0,
            orientation = VERTICAL, color = [0, 2 / 5, 1, 1 / 2]\<rparr>,
           \<lparr>name = ''Guide'', position_x = 0, position_y = 1, rotation = 0,
            orientation = HORIZONTAL, color = [1, 1 / 2, 0, 1]\<rparr>])"
    by code_simp
  have k: "example_guides \<noteq> []"
    by (simp add: example_guides_def add_custom_guide_def)
  from a b c d e f g h i j k show ?thesis by (intro conjI)
qed

text \<open>
  C9 as stated, for every string that is not valid JSON, fails on the constants
  \<^verbatim>\<open>json.loads\<close> accepts beyond JSON: \<^verbatim>\<open>NaN\<close> and \<^verbatim>\<open>-Infinity\<close> parse to a float,
  so the collection is cleared and the loop over the float raises \<^verbatim>\<open>TypeError\<close>;
  \<^verbatim>\<open>[NaN]\<close> parses to a list, so the collection is cleared, one default guide line is
  added and \<^verbatim>\<open>item.get\<close> raises \<^verbatim>\<open>AttributeError\<close>.
\<close>

theorem deserialize_guides_constant_counterexample:
  "example_guides \<noteq> []
   \<and> \<not> valid_json ''NaN''
   \<and> json_loads ''NaN'' = Inr (PyNonFinite NaN)
   \<and> deserialize_guides example_guides ''NaN'' = (Raised TypeError, [])
   \<and> \<not> valid_json ''-Infinity''
   \<and> deserialize_guides example_guides ''-Infinity'' = (Raised TypeError, [])
   \<and> \<not> valid_json ''[NaN]''
   \<and> deserialize_guides example_guides ''[NaN]'' = (Raised AttributeError, [new_guide])"
proof -
  have a: "example_guides \<noteq> []"
    by (simp add: example_guides_def add_custom_guide_def)
  have b: "\<not> valid_json ''NaN''" by code_simp
  have c: "json_loads ''NaN'' = Inr (PyNonFinite NaN)" by code_simp
  have d: "deserialize_guides example_guides ''NaN'' = (Raised TypeError, [])"
    using c by (simp add: deserialize_guides_def)
  have e: "\<not> valid_json ''-Infinity''" by code_simp
  have "json_loads ''-Infinity'' = Inr (PyNonFinite NegInfinity)" by code_simp
  then have f: "deserialize_guides example_guides ''-Infinity'' = (Raised TypeError, [])"
    by (simp add: deserialize_guides_def)
  have g: "\<not> valid_json ''[NaN]''" by code_simp
  have "json_loads ''[NaN]'' = Inr (PyList [PyNonFinite NaN])" by code_simp
  then have h: "deserialize_guides example_guides ''[NaN]'' = (Raised AttributeError, [new_guide])"
    by (simp add: deserialize_guides_def deserialize_item_def)
  from a b c d e f g h show ?thesis by (intro conjI)
qed

subsection \<open>Frame rectangle of the drag operators\<close>

lemma invoke_frame_square_pixels:
  assumes "resolution_x render \<noteq> 0" and "resolution_y render \<noteq> 0"
    and "pixel_aspect_y render \<noteq> 0" and "pixel_aspect_x render = pixel_aspect_y render"
  shows "invoke_frame v2r render = Some (get_frame_coordinates v2r rw rh render)"
  using assms
  by (simp add: invoke_frame_def get_frame_coordinates_def Let_def split: prod.splits)

text \<open>
  C7 at a render of 200 by 100 with pixel aspect 2 : 1. The drag-move operator's invoke
  takes the frame from the resolution alone and gets (0, 0, 200, 100); the rendering
  entry point widens the frame by the pixel aspect and gets (-100, 0, 400, 100), where
  the guide lines are drawn.
\<close>

theorem invoke_frame_ignores_pixel_aspect:
  "invoke_frame example_v2r (example_render\<lparr>pixel_aspect_x := 2\<rparr>) = Some (0, 0, 200, 100)
   \<and> get_frame_coordinates example_v2r 640 480 (example_render\<lparr>pixel_aspect_x := 2\<rparr>)
       = (- 100, 0, 400, 100)"
  by (simp add: invoke_frame_def get_frame_coordinates_def example_v2r_def example_render_def
        Let_def)

subsection \<open>Diagonal method in the exported image\<close>

lemma diagonal_method_lines_length:
  assumes "((x1, y1), (x2, y2)) \<in> set (diagonal_method_lines a (fx, fy, fw, fh))"
  shows "(x2 - x1)\<^sup>2 + (y2 - y1)\<^sup>2 = (2 * max fw fh)\<^sup>2"
proof -
  let ?c = "cos (radians a)" and ?s = "sin (radians a)" and ?m = "max fw fh * 2"
  have "(?m * ?c)\<^sup>2 + (?m * ?s)\<^sup>2 = ?m\<^sup>2 * (?c\<^sup>2 + ?s\<^sup>2)"
    by (simp only: power_mult_distrib distrib_left)
  also have "\<dots> = ?m\<^sup>2"
    by (simp only: sin_cos_squared_add2 mult_1_right)
  also have "\<dots> = (2 * max fw fh)\<^sup>2"
    by (simp only: mult.commute)
  finally have e: "(?m * ?c)\<^sup>2 + (?m * ?s)\<^sup>2 = (2 * max fw fh)\<^sup>2" .
  have e': "(- (?m * ?c))\<^sup>2 + (?m * ?s)\<^sup>2 = (2 * max fw fh)\<^sup>2"
    "(?m * ?c)\<^sup>2 + (- (?m * ?s))\<^sup>2 = (2 * max fw fh)\<^sup>2"
    "(- (?m * ?c))\<^sup>2 + (- (?m * ?s))\<^sup>2 = (2 * max fw fh)\<^sup>2"
    using e by (simp_all only: power2_minus)
  from assms consider
      "x2 - x1 = ?m * ?c" "y2 - y1 = ?m * ?s"
    | "x2 - x1 = - (?m * ?c)" "y2 - y1 = ?m * ?s"
    | "x2 - x1 = ?m * ?c" "y2 - y1 = - (?m * ?s)"
    | "x2 - x1 = - (?m * ?c)" "y2 - y1 = - (?m * ?s)"
    by (auto simp: diagonal_method_lines_def Let_def)
  then show ?thesis
    by cases (simp_all only: e e')
qed

text \<open>
  C6 at a 100 by 100 frame with \<^verbatim>\<open>diagonal_method_angle\<close> = 0. The live overlay
  draws four horizontal lines of length 200 along the bottom and top edges; the export
  draws the four 45 degree diagonals of length \<open>100 * sqrt 2\<close>, whatever the angle.
\<close>

theorem export_diagonal_method_ignores_angle:
  "diagonal_method_lines 0 (0, 0, 100, 100)
     = [((0, 0), (200, 0)), ((100, 0), (- 100, 0)), ((0, 100), (200, 100)),
        ((100, 100), (- 100, 100))]
   \<and> export_diagonal_method 100 100
     = [((0, 0), (100, 100)), ((100, 0), (0, 100)), ((0, 100), (100, 0)),
        ((100, 100), (0, 0))]"
  by (simp add: diagonal_method_lines_def export_diagonal_method_def radians_def Let_def)

subsection \<open>Golden spiral iterations\<close>

lemma work_step:
  "work_before k = r \<Longrightarrow> snd (snd (carve k r)) = r' \<Longrightarrow> Suc k = k' \<Longrightarrow> work_before k' = r'"
  by auto

lemma work_before_values:
  shows "work_before 0 = (0, 0, 1294427191 / 800000, 1000)"
    and "work_before 1 = (1000, 0, 494427191 / 800000, 1000)"
    and "work_before 2 = (1000, 0, 494427191 / 800000, 305572809 / 800000)"
    and "work_before 3 = (1000, 0, 94427191 / 400000, 305572809 / 800000)"
    and "work_before 4 = (1000, 94427191 / 400000, 94427191 / 400000, 116718427 / 800000)"
    and "work_before 5 = (916718427 / 800000, 94427191 / 400000, 14427191 / 160000, 116718427 / 800000)"
    and "work_before 6 = (916718427 / 800000, 94427191 / 400000, 14427191 / 160000, 5572809 / 100000)"
    and "work_before 7 = (916718427 / 800000, 94427191 / 400000, 27553483 / 800000, 5572809 / 100000)"
    and "work_before 8 = (916718427 / 800000, 43281573 / 160000, 27553483 / 800000, 17028989 / 800000)"
    and "work_before 9 = (116718427 / 100000, 43281573 / 160000, 5262247 / 400000, 17028989 / 800000)"
    and "work_before 10 = (116718427 / 100000, 43281573 / 160000, 5262247 / 400000, 1300899 / 160000)"
    and "work_before 11 = (116718427 / 100000, 43281573 / 160000, 4019999 / 800000, 1300899 / 160000)"
    and "work_before 12 = (116718427 / 100000, 27553483 / 100000, 4019999 / 800000, 155281 / 50000)"
    and "work_before 13 = (117028989 / 100000, 27553483 / 100000, 1535503 / 800000, 155281 / 50000)"
    and "work_before 14 = (117028989 / 100000, 27553483 / 100000, 1535503 / 800000, 948993 / 800000)"
    and "work_before 15 = (117028989 / 100000, 27553483 / 100000, 58651 / 80000, 948993 / 800000)"
proof -
  show w0: "work_before 0 = (0, 0, 1294427191 / 800000, 1000)"
    by (simp add: gen_w_def gen_h_def phi_def)
  have c0: "snd (snd (carve 0 (0, 0, 1294427191 / 800000, 1000))) = (1000, 0, 494427191 / 800000, 1000)"
    by (simp add: carve_def Let_def)
  have s1: "Suc 0 = 1" by simp
  from work_step [OF w0 c0 s1] show w1: "work_before 1 = (1000, 0, 494427191 / 800000, 1000)"
    .
  have c1: "snd (snd (carve 1 (1000, 0, 494427191 / 800000, 1000))) = (1000, 0, 494427191 / 800000, 305572809 / 800000)"
    by (simp add: carve_def Let_def)
  have s2: "Suc 1 = 2" by simp
  from work_step [OF w1 c1 s2] show w2: "work_before 2 = (1000, 0, 494427191 / 800000, 305572809 / 800000)"
    .
  have c2: "snd (snd (carve 2 (1000, 0, 494427191 / 800000, 305572809 / 800000))) = (1000, 0, 94427191 / 400000, 305572809 / 800000)"
    by (simp add: carve_def Let_def)
  have s3: "Suc 2 = 3" by simp
  from work_step [OF w2 c2 s3] show w3: "work_before 3 = (1000, 0, 94427191 / 400000, 305572809 / 800000)"
    .
  have c3: "snd (snd (carve 3 (1000, 0, 94427191 / 400000, 305572809 / 800000))) = (1000, 94427191 / 400000, 94427191 / 400000, 116718427 / 800000)"
    by (simp add: carve_def Let_def)
  have s4: "Suc 3 = 4" by simp
  from work_step [OF w3 c3 s4] show w4: "work_before 4 = (1000, 94427191 / 400000, 94427191 / 400000, 116718427 / 800000)"
    .
  have c4: "snd (snd (carve 4 (1000, 94427191 / 400000, 94427191 / 400000, 116718427 / 800000))) = (916718427 / 800000, 94427191 / 400000, 14427191 / 160000, 116718427 / 800000)"
    by (simp add: carve_def Let_def)
  have s5: "Suc 4 = 5" by simp
  from work_step [OF w4 c4 s5] show w5: "work_before 5 = (916718427 / 800000, 94427191 / 400000, 14427191 / 160000, 116718427 / 800000)"
    .
  have c5: "snd (snd (carve 5 (916718427 / 800000, 94427191 / 400000, 14427191 / 160000, 116718427 / 800000))) = (916718427 / 800000, 94427191 / 400000, 14427191 / 160000, 5572809 / 100000)"
    by (simp add: carve_def Let_def)
  have s6: "Suc 5 = 6" by simp
  from work_step [OF w5 c5 s6] show w6: "work_before 6 = (916718427 / 800000, 94427191 / 400000, 14427191 / 160000, 5572809 / 100000)"
    .
  have c6: "snd (snd (carve 6 (916718427 / 800000, 94427191 / 400000, 14427191 / 160000, 5572809 / 100000))) = (916718427 / 800000, 94427191 / 400000, 27553483 / 800000, 5572809 / 100000)"
    by (simp add: carve_def Let_def)
  have s7: "Suc 6 = 7" by simp
  from work_step [OF w6 c6 s7] show w7: "work_before 7 = (916718427 / 800000, 94427191 / 400000, 27553483 / 800000, 5572809 / 100000)"
    .
  have c7: "snd (snd (carve 7 (916718427 / 800000, 94427191 / 400000, 27553483 / 800000, 5572809 / 100000))) = (916718427 / 800000, 43281573 / 160000, 27553483 / 800000, 17028989 / 800000)"
    by (simp add: carve_def Let_def)
  have s8: "Suc 7 = 8" by simp
  from work_step [OF w7 c7 s8] show w8: "work_before 8 = (916718427 / 800000, 43281573 / 160000, 27553483 / 800000, 17028989 / 800000)"
    .
  have c8: "snd (snd (carve 8 (916718427 / 800000, 43281573 / 160000, 27553483 / 800000, 17028989 / 800000))) = (116718427 / 100000, 43281573 / 160000, 5262247 / 400000, 17028989 / 800000)"
    by (simp add: carve_def Let_def)
  have s9: "Suc 8 = 9" by simp
  from work_step [OF w8 c8 s9] show w9: "work_before 9 = (116718427 / 100000, 43281573 / 160000, 5262247 / 400000, 17028989 / 800000)"
    .
  have c9: "snd (snd (carve 9 (116718427 / 100000, 43281573 / 160000, 5262247 / 400000, 17028989 / 800000))) = (116718427 / 100000, 43281573 / 160000, 5262247 / 400000, 1300899 / 160000)"
    by (simp add: carve_def Let_def)
  have s10: "Suc 9 = 10" by simp
  from work_step [OF w9 c9 s10] show w10: "work_before 10 = (116718427 / 100000, 43281573 / 160000, 5262247 / 400000, 1300899 / 160000)"
    .
  have c10: "snd (snd (carve 10 (116718427 / 100000, 43281573 / 160000, 5262247 / 400000, 1300899 / 160000))) = (116718427 / 100000, 43281573 / 160000, 4019999 / 800000, 1300899 / 160000)"
    by (simp add: carve_def Let_def)
  have s11: "Suc 10 = 11" by simp
  from work_step [OF w10 c10 s11] show w11: "work_before 11 = (116718427 / 100000, 43281573 / 160000, 4019999 / 800000, 1300899 / 160000)"
    .
  have c11: "snd (snd (carve 11 (116718427 / 100000, 43281573 / 160000, 4019999 / 800000, 1300899 / 160000))) = (116718427 / 100000, 27553483 / 100000, 4019999 / 800000, 155281 / 50000)"
    by (simp add: carve_def Let_def)
  have s12: "Suc 11 = 12" by simp
  from work_step [OF w11 c11 s12] show w12: "work_before 12 = (116718427 / 100000, 27553483 / 100000, 4019999 / 800000, 155281 / 50000)"
    .
  have c12: "snd (snd (carve 12 (116718427 / 100000, 27553483 / 100000, 4019999 / 800000, 155281 / 50000))) = (117028989 / 100000, 27553483 / 100000, 1535503 / 800000, 155281 / 50000)"
    by (simp add: carve_def Let_def)
  have s13: "Suc 12 = 13" by simp
  from work_step [OF w12 c12 s13] show w13: "work_before 13 = (117028989 / 100000, 27553483 / 100000, 1535503 / 800000, 155281 / 50000)"
    .
  have c13: "snd (snd (carve 13 (117028989 / 100000, 27553483 / 100000, 1535503 / 800000, 155281 / 50000))) = (117028989 / 100000, 27553483 / 100000, 1535503 / 800000, 948993 / 800000)"
    by (simp add: carve_def Let_def)
  have s14: "Suc 13 = 14" by simp
  from work_step [OF w13 c13 s14] show w14: "work_before 14 = (117028989 / 100000, 27553483 / 100000, 1535503 / 800000, 948993 / 800000)"
    .
  have c14: "snd (snd (carve 14 (117028989 / 100000, 27553483 / 100000, 1535503 / 800000, 948993 / 800000))) = (117028989 / 100000, 27553483 / 100000, 58651 / 80000, 948993 / 800000)"
    by (simp add: carve_def Let_def)
  have s15: "Suc 14 = 15" by simp
  from work_step [OF w14 c14 s15] show w15: "work_before 15 = (117028989 / 100000, 27553483 / 100000, 58651 / 80000, 948993 / 800000)"
    .
qed

lemma not_too_small:
  assumes "k < 15"
  shows "\<not> too_small (work_before k)"
proof -
  from assms have "k = 0 \<or> k = 1 \<or> k = 2 \<or> k = 3 \<or> k = 4 \<or> k = 5 \<or> k = 6 \<or> k = 7
      \<or> k = 8 \<or> k = 9 \<or> k = 10 \<or> k = 11 \<or> k = 12 \<or> k = 13 \<or> k = 14"
    by presburger
  then show ?thesis
    by (elim disjE) (simp_all only: work_before_values too_small_def, simp_all)
qed

lemma too_small_15: "too_small (work_before 15)"
  by (simp only: work_before_values too_small_def) simp

lemma spiral_step_state_after:
  "spiral_step ss k (state_after ss k) = state_after ss (Suc k)"
  by (simp add: spiral_step_def state_after_def arc_of_def boundary_of_def split: prod.splits)

lemma spiral_loop_stop:
  "k \<ge> L \<or> too_small (work st) \<Longrightarrow> spiral_loop ss L k st = st"
  by (subst spiral_loop.simps) (auto simp: too_small_def split: prod.splits)

lemma spiral_loop_continue:
  "k < L \<Longrightarrow> \<not> too_small (work st) \<Longrightarrow>
   spiral_loop ss L k st = spiral_loop ss L (Suc k) (spiral_step ss k st)"
  by (subst spiral_loop.simps) (auto simp: too_small_def split: prod.splits)

lemma spiral_loop_state_after:
  assumes "n \<le> L" and "\<forall>j<n. \<not> too_small (work_before j)"
    and "n = L \<or> too_small (work_before n)" and "k \<le> n"
  shows "spiral_loop ss L k (state_after ss k) = state_after ss n"
  using assms(4)
proof (induction "n - k" arbitrary: k)
  case 0
  then have "k = n" by simp
  with assms(3) have "k \<ge> L \<or> too_small (work (state_after ss k))"
    by (auto simp: state_after_def)
  then have "spiral_loop ss L k (state_after ss k) = state_after ss k"
    by (rule spiral_loop_stop)
  with \<open>k = n\<close> show ?case by simp
next
  case (Suc d)
  then have k: "k < n" by simp
  with assms(1) have "k < L" by simp
  moreover from k assms(2) have "\<not> too_small (work (state_after ss k))"
    by (simp add: state_after_def)
  ultimately have "spiral_loop ss L k (state_after ss k)
      = spiral_loop ss L (Suc k) (spiral_step ss k (state_after ss k))"
    by (rule spiral_loop_continue)
  also have "\<dots> = spiral_loop ss L (Suc k) (state_after ss (Suc k))"
    by (simp only: spiral_step_state_after)
  also have "\<dots> = state_after ss n"
    using Suc k by (intro Suc.hyps(1)) simp_all
  finally show ?case .
qed

lemma length_arc_points: "length (arc_points a) = 33"
  by (simp add: arc_points_def split: prod.splits)

lemma length_points_state_after: "length (points (state_after ss k)) = 33 * k"
  by (induction k) (simp_all add: state_after_def length_arc_points)

lemma length_rect_lines_state_after:
  "length (rect_lines (state_after ss k)) = (if ss then k else 0)"
  by (simp add: state_after_def)

lemma golden_spiral_generate_state_after:
  "golden_spiral_generate ss L = state_after ss (min L 15)"
proof -
  have a: "min L 15 \<le> L" by simp
  have b: "\<forall>j<min L 15. \<not> too_small (work_before j)"
    using not_too_small by simp
  have c: "min L 15 = L \<or> too_small (work_before (min L 15))"
    using too_small_15 by (cases "L \<le> 15") (simp_all add: min_def)
  have "state_after ss 0 = \<lparr>work = (0, 0, gen_w, gen_h), points = [], rect_lines = []\<rparr>"
    by (simp add: state_after_def)
  then have "golden_spiral_generate ss L = spiral_loop ss L 0 (state_after ss 0)"
    by (simp only: golden_spiral_generate_def)
  also have "\<dots> = state_after ss (min L 15)"
    using a b c by (rule spiral_loop_state_after) simp
  finally show ?thesis .
qed

lemma nth_concat_blocks:
  assumes "\<forall>j<n. length (f j) = m" and "k < n" and "i < m"
  shows "concat (map f [0..<n]) ! (m * k + i) = f k ! i"
  using assms
proof (induction n)
  case 0
  then show ?case by simp
next
  case (Suc n)
  have len: "length (concat (map f [0..<n])) = m * n"
    using Suc.prems(1) by (induction n) simp_all
  show ?case
  proof (cases "k < n")
    case True
    then have "m * k + i < m * n"
    proof -
      from True have "Suc k \<le> n" by simp
      then have "m * Suc k \<le> m * n" by (rule mult_le_mono2)
      with Suc.prems(3) show ?thesis by simp
    qed
    with Suc True len show ?thesis by (simp add: nth_append)
  next
    case False
    with Suc.prems(2) have "k = n" by simp
    with len show ?thesis by (simp add: nth_append)
  qed
qed

lemma arc_points_nth:
  "i \<le> 32 \<Longrightarrow>
   arc_points (cx, cy, r, sa, ea) ! i
     = (cx + r * cos (sa + (ea - sa) * (real i / 32)), cy + r * sin (sa + (ea - sa) * (real i / 32)))"
  by (simp add: arc_points_def Let_def nth_append less_Suc_eq_le)

lemma points_state_after_nth:
  assumes "k < n" and "i \<le> 32"
  shows "points (state_after ss n) ! (33 * k + i) = arc_points (arc_of k) ! i"
proof -
  have "\<forall>j<n. length (arc_points (arc_of j)) = 33" by (simp add: length_arc_points)
  from nth_concat_blocks [OF this assms(1), of i] assms(2) show ?thesis
    by (simp add: state_after_def)
qed

lemma phase_cases: "(k::nat) mod 4 = 0 \<or> k mod 4 = 1 \<or> k mod 4 = 2 \<or> k mod 4 = 3"
  by presburger

lemma arc_of_phase:
  assumes w: "work_before k = (lx, ly, lw, lh)"
  shows "arc_of k =
     (if k mod 4 = 0 then (lx + min lw lh, ly, min lw lh, pi, pi / 2)
      else if k mod 4 = 1 then (lx, ly + lh - min lw lh, min lw lh, pi / 2, 0)
      else if k mod 4 = 2 then (lx + lw - min lw lh, ly + lh, min lw lh, 0, - pi / 2)
      else (lx + lw, ly + min lw lh, min lw lh, - pi / 2, - pi))"
  by (simp add: arc_of_def w carve_def Let_def)

lemma sweep_angle:
  fixes t :: real
  shows "pi + (pi / 2 - pi) * t = pi - (0 + t) * (pi / 2)"
    and "pi / 2 + (0 - pi / 2) * t = pi - (1 + t) * (pi / 2)"
    and "0 + (- pi / 2 - 0) * t = pi - (2 + t) * (pi / 2)"
    and "- pi / 2 + (- pi - - pi / 2) * t = pi - (3 + t) * (pi / 2)"
  by (simp_all add: field_simps)

lemma arc_points_at:
  assumes "i \<le> 32" and "sa + (ea - sa) * (real i / 32) = ang"
  shows "arc_points (cx, cy, r, sa, ea) ! i = (cx + r * cos ang, cy + r * sin ang)"
  using arc_points_nth [OF assms(1), of cx cy r sa ea] assms(2) by simp

lemma arc_point_formula:
  assumes w: "work_before k = (lx, ly, lw, lh)" and i: "i \<le> 32"
  shows "arc_points (arc_of k) ! i =
     (fst (if k mod 4 = 0 then (lx + min lw lh, ly)
           else if k mod 4 = 1 then (lx, ly + lh - min lw lh)
           else if k mod 4 = 2 then (lx + lw - min lw lh, ly + lh)
           else (lx + lw, ly + min lw lh))
        + min lw lh * cos (pi - (real (k mod 4) + real i / 32) * (pi / 2)),
      snd (if k mod 4 = 0 then (lx + min lw lh, ly)
           else if k mod 4 = 1 then (lx, ly + lh - min lw lh)
           else if k mod 4 = 2 then (lx + lw - min lw lh, ly + lh)
           else (lx + lw, ly + min lw lh))
        + min lw lh * sin (pi - (real (k mod 4) + real i / 32) * (pi / 2)))"
    (is "_ = (fst ?c + _ * cos ?a, snd ?c + _ * sin ?a)")
proof -
  from phase_cases [of k] show ?thesis
  proof (elim disjE)
    assume p: "k mod 4 = 0"
    then have e: "arc_of k = (lx + min lw lh, ly, min lw lh, pi, pi / 2)"
      and c: "?c = (lx + min lw lh, ly)"
      and a: "?a = pi - (0 + real i / 32) * (pi / 2)"
      by (simp_all add: arc_of_phase [OF w])
    show ?thesis unfolding e c a fst_conv snd_conv
      by (rule arc_points_at [OF i]) (rule sweep_angle)
  next
    assume p: "k mod 4 = 1"
    then have e: "arc_of k = (lx, ly + lh - min lw lh, min lw lh, pi / 2, 0)"
      and c: "?c = (lx, ly + lh - min lw lh)"
      and a: "?a = pi - (1 + real i / 32) * (pi / 2)"
      by (simp_all add: arc_of_phase [OF w])
    show ?thesis unfolding e c a fst_conv snd_conv
      by (rule arc_points_at [OF i]) (rule sweep_angle)
  next
    assume p: "k mod 4 = 2"
    then have e: "arc_of k = (lx + lw - min lw lh, ly + lh, min lw lh, 0, - pi / 2)"
      and c: "?c = (lx + lw - min lw lh, ly + lh)"
      and a: "?a = pi - (2 + real i / 32) * (pi / 2)"
      by (simp_all add: arc_of_phase [OF w])
    show ?thesis unfolding e c a fst_conv snd_conv
      by (rule arc_points_at [OF i]) (rule sweep_angle)
  next
    assume p: "k mod 4 = 3"
    then have e: "arc_of k = (lx + lw, ly + min lw lh, min lw lh, - pi / 2, - pi)"
      and c: "?c = (lx + lw, ly + min lw lh)"
      and a: "?a = pi - (3 + real i / 32) * (pi / 2)"
      by (simp_all add: arc_of_phase [OF w])
    show ?thesis unfolding e c a fst_conv snd_conv
      by (rule arc_points_at [OF i]) (rule sweep_angle)
  qed
qed

lemma quarter_turns:
  "cos (pi - (0 + real 0 / 32) * (pi / 2)) = - 1" "sin (pi - (0 + real 0 / 32) * (pi / 2)) = 0"
  "cos (pi - (0 + real 32 / 32) * (pi / 2)) = 0" "sin (pi - (0 + real 32 / 32) * (pi / 2)) = 1"
  "cos (pi - (1 + real 0 / 32) * (pi / 2)) = 0" "sin (pi - (1 + real 0 / 32) * (pi / 2)) = 1"
  "cos (pi - (1 + real 32 / 32) * (pi / 2)) = 1" "sin (pi - (1 + real 32 / 32) * (pi / 2)) = 0"
  "cos (pi - (2 + real 0 / 32) * (pi / 2)) = 1" "sin (pi - (2 + real 0 / 32) * (pi / 2)) = 0"
  "cos (pi - (2 + real 32 / 32) * (pi / 2)) = 0" "sin (pi - (2 + real 32 / 32) * (pi / 2)) = - 1"
  "cos (pi - (3 + real 0 / 32) * (pi / 2)) = 0" "sin (pi - (3 + real 0 / 32) * (pi / 2)) = - 1"
  "cos (pi - (3 + real 32 / 32) * (pi / 2)) = - 1" "sin (pi - (3 + real 32 / 32) * (pi / 2)) = 0"
proof -
  have a: "pi - (0 + real 0 / 32) * (pi / 2) = pi" "pi - (0 + real 32 / 32) * (pi / 2) = pi / 2"
    "pi - (1 + real 0 / 32) * (pi / 2) = pi / 2" "pi - (1 + real 32 / 32) * (pi / 2) = 0"
    "pi - (2 + real 0 / 32) * (pi / 2) = 0" "pi - (2 + real 32 / 32) * (pi / 2) = - (pi / 2)"
    "pi - (3 + real 0 / 32) * (pi / 2) = - (pi / 2)" "pi - (3 + real 32 / 32) * (pi / 2) = - pi"
    by (simp_all add: field_simps)
  show "cos (pi - (0 + real 0 / 32) * (pi / 2)) = - 1" "sin (pi - (0 + real 0 / 32) * (pi / 2)) = 0"
  "cos (pi - (0 + real 32 / 32) * (pi / 2)) = 0" "sin (pi - (0 + real 32 / 32) * (pi / 2)) = 1"
  "cos (pi - (1 + real 0 / 32) * (pi / 2)) = 0" "sin (pi - (1 + real 0 / 32) * (pi / 2)) = 1"
  "cos (pi - (1 + real 32 / 32) * (pi / 2)) = 1" "sin (pi - (1 + real 32 / 32) * (pi / 2)) = 0"
  "cos (pi - (2 + real 0 / 32) * (pi / 2)) = 1" "sin (pi - (2 + real 0 / 32) * (pi / 2)) = 0"
  "cos (pi - (2 + real 32 / 32) * (pi / 2)) = 0" "sin (pi - (2 + real 32 / 32) * (pi / 2)) = - 1"
  "cos (pi - (3 + real 0 / 32) * (pi / 2)) = 0" "sin (pi - (3 + real 0 / 32) * (pi / 2)) = - 1"
  "cos (pi - (3 + real 32 / 32) * (pi / 2)) = - 1" "sin (pi - (3 + real 32 / 32) * (pi / 2)) = 0"
    unfolding a by simp_all
qed

text \<open>The first and the last point of an arc are corners of the carved square.\<close>

lemma arc_first:
  assumes w: "work_before k = (lx, ly, lw, lh)"
  shows "arc_points (arc_of k) ! 0 =
     (if k mod 4 = 0 then (lx, ly)
      else if k mod 4 = 1 then (lx, ly + lh)
      else if k mod 4 = 2 then (lx + lw, ly + lh)
      else (lx + lw, ly))"
proof -
  have i: "(0::nat) \<le> 32" by simp
  from phase_cases [of k] show ?thesis
  proof (elim disjE)
    assume p: "k mod 4 = 0"
    then have r: "real (k mod 4) = 0" by simp
    show ?thesis unfolding arc_point_formula [OF w i] r quarter_turns using p by simp
  next
    assume p: "k mod 4 = 1"
    then have r: "real (k mod 4) = 1" by simp
    show ?thesis unfolding arc_point_formula [OF w i] r quarter_turns using p by simp
  next
    assume p: "k mod 4 = 2"
    then have r: "real (k mod 4) = 2" by simp
    show ?thesis unfolding arc_point_formula [OF w i] r quarter_turns using p by simp
  next
    assume p: "k mod 4 = 3"
    then have r: "real (k mod 4) = 3" by simp
    show ?thesis unfolding arc_point_formula [OF w i] r quarter_turns using p by simp
  qed
qed

lemma arc_last:
  assumes w: "work_before k = (lx, ly, lw, lh)"
  shows "arc_points (arc_of k) ! 32 =
     (if k mod 4 = 0 then (lx + min lw lh, ly + min lw lh)
      else if k mod 4 = 1 then (lx + min lw lh, ly + lh - min lw lh)
      else if k mod 4 = 2 then (lx + lw - min lw lh, ly + lh - min lw lh)
      else (lx + lw - min lw lh, ly + min lw lh))"
proof -
  have i: "(32::nat) \<le> 32" by simp
  from phase_cases [of k] show ?thesis
  proof (elim disjE)
    assume p: "k mod 4 = 0"
    then have r: "real (k mod 4) = 0" by simp
    show ?thesis unfolding arc_point_formula [OF w i] r quarter_turns using p by simp
  next
    assume p: "k mod 4 = 1"
    then have r: "real (k mod 4) = 1" by simp
    show ?thesis unfolding arc_point_formula [OF w i] r quarter_turns using p by simp
  next
    assume p: "k mod 4 = 2"
    then have r: "real (k mod 4) = 2" by simp
    show ?thesis unfolding arc_point_formula [OF w i] r quarter_turns using p by simp
  next
    assume p: "k mod 4 = 3"
    then have r: "real (k mod 4) = 3" by simp
    show ?thesis unfolding arc_point_formula [OF w i] r quarter_turns using p by simp
  qed
qed

lemma arc_joint:
  assumes "k + 1 < 15"
  shows "arc_points (arc_of k) ! 32 = arc_points (arc_of (k + 1)) ! 0"
proof -
  have e0: "(0::nat) + 1 = 1" by simp
  have j0: "arc_points (arc_of 0) ! 32 = arc_points (arc_of (0 + 1)) ! 0"
    unfolding e0 arc_last [OF work_before_values(1)] arc_first [OF work_before_values(2)]
    by simp
  have e1: "(1::nat) + 1 = 2" by simp
  have j1: "arc_points (arc_of 1) ! 32 = arc_points (arc_of (1 + 1)) ! 0"
    unfolding e1 arc_last [OF work_before_values(2)] arc_first [OF work_before_values(3)]
    by simp
  have e2: "(2::nat) + 1 = 3" by simp
  have j2: "arc_points (arc_of 2) ! 32 = arc_points (arc_of (2 + 1)) ! 0"
    unfolding e2 arc_last [OF work_before_values(3)] arc_first [OF work_before_values(4)]
    by simp
  have e3: "(3::nat) + 1 = 4" by simp
  have j3: "arc_points (arc_of 3) ! 32 = arc_points (arc_of (3 + 1)) ! 0"
    unfolding e3 arc_last [OF work_before_values(4)] arc_first [OF work_before_values(5)]
    by simp
  have e4: "(4::nat) + 1 = 5" by simp
  have j4: "arc_points (arc_of 4) ! 32 = arc_points (arc_of (4 + 1)) ! 0"
    unfolding e4 arc_last [OF work_before_values(5)] arc_first [OF work_before_values(6)]
    by simp
  have e5: "(5::nat) + 1 = 6" by simp
  have j5: "arc_points (arc_of 5) ! 32 = arc_points (arc_of (5 + 1)) ! 0"
    unfolding e5 arc_last [OF work_before_values(6)] arc_first [OF work_before_values(7)]
    by simp
  have e6: "(6::nat) + 1 = 7" by simp
  have j6: "arc_points (arc_of 6) ! 32 = arc_points (arc_of (6 + 1)) ! 0"
    unfolding e6 arc_last [OF work_before_values(7)] arc_first [OF work_before_values(8)]
    by simp
  have e7: "(7::nat) + 1 = 8" by simp
  have j7: "arc_points (arc_of 7) ! 32 = arc_points (arc_of (7 + 1)) ! 0"
    unfolding e7 arc_last [OF work_before_values(8)] arc_first [OF work_before_values(9)]
    by simp
  have e8: "(8::nat) + 1 = 9" by simp
  have j8: "arc_points (arc_of 8) ! 32 = arc_points (arc_of (8 + 1)) ! 0"
    unfolding e8 arc_last [OF work_before_values(9)] arc_first [OF work_before_values(10)]
    by simp
  have e9: "(9::nat) + 1 = 10" by simp
  have j9: "arc_points (arc_of 9) ! 32 = arc_points (arc_of (9 + 1)) ! 0"
    unfolding e9 arc_last [OF work_before_values(10)] arc_first [OF work_before_values(11)]
    by simp
  have e10: "(10::nat) + 1 = 11" by simp
  have j10: "arc_points (arc_of 10) ! 32 = arc_points (arc_of (10 + 1)) ! 0"
    unfolding e10 arc_last [OF work_before_values(11)] arc_first [OF work_before_values(12)]
    by simp
  have e11: "(11::nat) + 1 = 12" by simp
  have j11: "arc_points (arc_of 11) ! 32 = arc_points (arc_of (11 + 1)) ! 0"
    unfolding e11 arc_last [OF work_before_values(12)] arc_first [OF work_before_values(13)]
    by simp
  have e12: "(12::nat) + 1 = 13" by simp
  have j12: "arc_points (arc_of 12) ! 32 = arc_points (arc_of (12 + 1)) ! 0"
    unfolding e12 arc_last [OF work_before_values(13)] arc_first [OF work_before_values(14)]
    by simp
  have e13: "(13::nat) + 1 = 14" by simp
  have j13: "arc_points (arc_of 13) ! 32 = arc_points (arc_of (13 + 1)) ! 0"
    unfolding e13 arc_last [OF work_before_values(14)] arc_first [OF work_before_values(15)]
    by simp
  from assms have "k = 0 \<or> k = 1 \<or> k = 2 \<or> k = 3 \<or> k = 4 \<or> k = 5 \<or> k = 6 \<or> k = 7 \<or> k = 8 \<or> k = 9 \<or> k = 10 \<or> k = 11 \<or> k = 12 \<or> k = 13"
    by presburger
  then show ?thesis
    using j0 j1 j2 j3 j4 j5 j6 j7 j8 j9 j10 j11 j12 j13
    by (elim disjE) (simp_all only:)
qed

lemma unit_circle_step:
  fixes a :: real
  assumes "cos (a - pi / 64) = cos a" and "sin (a - pi / 64) = sin a"
  shows False
proof -
  from assms have "sin (a - pi / 64) = sin a \<and> cos (a - pi / 64) = cos a" by simp
  then obtain n :: int where n: "a - pi / 64 = a + 2 * pi * real_of_int n"
    unfolding sin_cos_eq_iff by blast
  then have "pi * (- (1 / 64)) = pi * (2 * real_of_int n)" by (simp add: algebra_simps)
  then have "- (1 / 64) = 2 * real_of_int n"
    using pi_neq_zero by (simp only: mult_cancel_left) simp
  then have "real_of_int (128 * n) = real_of_int (- 1)" by simp
  then have "128 * n = - 1" by (simp only: of_int_eq_iff)
  then show False by presburger
qed

lemma arc_points_proper:
  assumes r: "0 < r" and i: "i < 32" and d: "ea - sa = - (pi / 2)"
  shows "arc_points (cx, cy, r, sa, ea) ! i \<noteq> arc_points (cx, cy, r, sa, ea) ! (i + 1)"
proof
  assume e: "arc_points (cx, cy, r, sa, ea) ! i = arc_points (cx, cy, r, sa, ea) ! (i + 1)"
  define a where "a = sa + (ea - sa) * (real i / 32)"
  have b: "sa + (ea - sa) * (real (i + 1) / 32) = a - pi / 64"
    unfolding a_def d by (simp add: field_simps)
  from i have i1: "i \<le> 32" and i2: "i + 1 \<le> 32" by simp_all
  from e have "cx + r * cos a = cx + r * cos (a - pi / 64)"
    and "cy + r * sin a = cy + r * sin (a - pi / 64)"
    unfolding arc_points_nth [OF i1] arc_points_nth [OF i2] b a_def [symmetric] by simp_all
  with r have "cos (a - pi / 64) = cos a" and "sin (a - pi / 64) = sin a" by simp_all
  then show False by (rule unit_circle_step)
qed

lemma arc_of_proper:
  assumes "\<not> too_small (work_before k)" and "i < 32"
  shows "arc_points (arc_of k) ! i \<noteq> arc_points (arc_of k) ! (i + 1)"
proof -
  obtain lx ly lw lh where w: "work_before k = (lx, ly, lw, lh)"
    by (cases "work_before k") auto
  with assms(1) have r: "0 < min lw lh" by (simp add: too_small_def)
  from phase_cases [of k] show ?thesis
  proof (elim disjE)
    assume "k mod 4 = 0"
    then have "arc_of k = (lx + min lw lh, ly, min lw lh, pi, pi / 2)"
      by (simp add: arc_of_phase [OF w])
    then show ?thesis using arc_points_proper [OF r assms(2), of "pi / 2" pi] by simp
  next
    assume "k mod 4 = 1"
    then have "arc_of k = (lx, ly + lh - min lw lh, min lw lh, pi / 2, 0)"
      by (simp add: arc_of_phase [OF w])
    then show ?thesis using arc_points_proper [OF r assms(2), of 0 "pi / 2"] by simp
  next
    assume "k mod 4 = 2"
    then have "arc_of k = (lx + lw - min lw lh, ly + lh, min lw lh, 0, - pi / 2)"
      by (simp add: arc_of_phase [OF w])
    then show ?thesis using arc_points_proper [OF r assms(2), of "- pi / 2" 0] by simp
  next
    assume "k mod 4 = 3"
    then have "arc_of k = (lx + lw, ly + min lw lh, min lw lh, - pi / 2, - pi)"
      by (simp add: arc_of_phase [OF w])
    then show ?thesis using arc_points_proper [OF r assms(2), of "- pi" "- pi / 2"] by simp
  qed
qed

lemma curve_lines_nth:
  assumes "j + 1 < length ps"
  shows "((if length ps > 1 then zip (butlast ps) (tl ps) else []) @ rest) ! j = (ps ! j, ps ! (j + 1))"
proof -
  from assms have l: "length ps > 1" and j: "j < length ps - 1" by simp_all
  then have "j < length (zip (butlast ps) (tl ps))" by simp
  then show ?thesis using l j by (simp add: nth_append nth_butlast nth_tl)
qed

lemma block_less: "33 * a < 33 * b \<Longrightarrow> a < (b::nat)"
  by simp

lemma golden_spiral_lines_length:
  "length (golden_spiral_lines ss L) = 33 * min L 15 - 1 + (if ss then min L 15 else 0)"
proof -
  have "length (golden_spiral_lines ss L)
      = length (points (golden_spiral_generate ss L)) - 1
        + (if ss then length (rect_lines (golden_spiral_generate ss L)) else 0)"
    by (simp add: golden_spiral_lines_def Let_def)
  then show ?thesis
    unfolding golden_spiral_generate_state_after length_points_state_after
      length_rect_lines_state_after
    by simp
qed

text \<open>
  C3, as amended. For every \<^verbatim>\<open>golden_spiral_length\<close> \<open>L\<close> (in particular for 1 to 24) the
  generation loop over the \<open>1000 * phi\<close> by 1000 rectangle completes \<open>min L 15\<close>
  iterations: the working rectangle is at least 1 in both dimensions before each of
  them, and when \<open>L\<close> is above 15 the loop breaks before the 16th, where the width is
  below 1. Iteration \<open>k\<close> carves a square of side \<open>min w h\<close> on the left, top, right or
  bottom according to \<open>k mod 4\<close> (the sides of the 15 squares are listed) and appends the
  33 points of a quarter circle of that radius to the one list of points: point \<open>i\<close> of
  the arc is at the angle \<open>pi - (k mod 4 + i / 32) * (pi / 2)\<close> around the centre, the arc
  runs from one corner of the carved square to the opposite one, and each of its 32
  segments joins two different points. With segments shown, iteration \<open>k\<close> also appends
  the boundary line of the carved square. The curve is drawn between all consecutive
  points of the list, so the arcs are joined by a line from the last point of one to the
  first point of the next; that is the same point, and of the \<open>33 * min L 15 - 1\<close> lines
  of the curve exactly these joints have no length. For \<open>L = 8\<close> the lines are 8 arcs of
  32 segments, the 7 joints between them and, with segments shown, 8 boundary lines.
\<close>

theorem golden_spiral_iterations:
  "length (points (golden_spiral_generate ss L)) = 33 * min L 15
   \<and> length (rect_lines (golden_spiral_generate ss L)) = (if ss then min L 15 else 0)
   \<and> work_before 0 = (0, 0, 1000 * phi, 1000)
   \<and> (\<forall>k<min L 15. \<not> too_small (work_before k))
   \<and> (min L 15 < L \<longrightarrow> too_small (work_before (min L 15)))
   \<and> snd (snd (carve idx (lx, ly, lw, lh)))
       = (if idx mod 4 = 0 then (lx + min lw lh, ly, lw - min lw lh, lh)
          else if idx mod 4 = 1 then (lx, ly, lw, lh - min lw lh)
          else if idx mod 4 = 2 then (lx, ly, lw - min lw lh, lh)
          else (lx, ly + min lw lh, lw, lh - min lw lh))
   \<and> map (\<lambda>k. case work_before k of (x, y, w, h) \<Rightarrow> min w h)
         [0, 1, 2, 3, 4, 5, 6, 7, 8, 9, 10, 11, 12, 13, 14]
       = [1000, 494427191 / 800000, 305572809 / 800000, 94427191 / 400000, 116718427 / 800000, 14427191 / 160000, 5572809 / 100000, 27553483 / 800000, 17028989 / 800000, 5262247 / 400000, 1300899 / 160000, 4019999 / 800000, 155281 / 50000, 1535503 / 800000, 948993 / 800000]
   \<and> (\<forall>k<min L 15. \<forall>i\<le>32.
         points (golden_spiral_generate ss L) ! (33 * k + i)
           = (case work_before k of
                (x, y, w, h) \<Rightarrow>
                  (fst (if k mod 4 = 0 then (x + min w h, y)
                     else if k mod 4 = 1 then (x, y + h - min w h)
                     else if k mod 4 = 2 then (x + w - min w h, y + h)
                     else (x + w, y + min w h))
                     + min w h * cos (pi - (real (k mod 4) + real i / 32) * (pi / 2)),
                   snd (if k mod 4 = 0 then (x + min w h, y)
                     else if k mod 4 = 1 then (x, y + h - min w h)
                     else if k mod 4 = 2 then (x + w - min w h, y + h)
                     else (x + w, y + min w h))
                     + min w h * sin (pi - (real (k mod 4) + real i / 32) * (pi / 2)))))
   \<and> (\<forall>k<min L 15.
         points (golden_spiral_generate ss L) ! (33 * k)
           = (case work_before k of
                (x, y, w, h) \<Rightarrow>
                  if k mod 4 = 0 then (x, y)
                  else if k mod 4 = 1 then (x, y + h)
                  else if k mod 4 = 2 then (x + w, y + h)
                  else (x + w, y))
         \<and> points (golden_spiral_generate ss L) ! (33 * k + 32)
           = (case work_before k of
                (x, y, w, h) \<Rightarrow>
                  if k mod 4 = 0 then (x + min w h, y + min w h)
                  else if k mod 4 = 1 then (x + min w h, y + h - min w h)
                  else if k mod 4 = 2 then (x + w - min w h, y + h - min w h)
                  else (x + w - min w h, y + min w h)))
   \<and> (\<forall>k. k + 1 < min L 15 \<longrightarrow>
         points (golden_spiral_generate ss L) ! (33 * k + 32)
           = points (golden_spiral_generate ss L) ! (33 * (k + 1)))
   \<and> (\<forall>k<min L 15. \<forall>i<32.
         points (golden_spiral_generate ss L) ! (33 * k + i)
           \<noteq> points (golden_spiral_generate ss L) ! (33 * k + i + 1))
   \<and> (ss \<longrightarrow>
        (\<forall>k<min L 15.
           rect_lines (golden_spiral_generate ss L) ! k
             = (case work_before k of
                  (x, y, w, h) \<Rightarrow>
                    if k mod 4 = 0 then ((x + min w h, y), (x + min w h, y + h))
                    else if k mod 4 = 1 then ((x, y + h - min w h), (x + w, y + h - min w h))
                    else if k mod 4 = 2 then ((x + w - min w h, y), (x + w - min w h, y + h))
                    else ((x, y + min w h), (x + w, y + min w h)))))
   \<and> (\<forall>j. j + 1 < 33 * min L 15 \<longrightarrow>
         golden_spiral_lines ss L ! j
           = (points (golden_spiral_generate ss L) ! j,
              points (golden_spiral_generate ss L) ! (j + 1)))
   \<and> (\<forall>j. j + 1 < 33 * min L 15 \<longrightarrow>
         (points (golden_spiral_generate ss L) ! j = points (golden_spiral_generate ss L) ! (j + 1))
           = (j mod 33 = 32))
   \<and> length (golden_spiral_lines ss L) = 33 * min L 15 - 1 + (if ss then min L 15 else 0)"
proof -
  have g: "golden_spiral_generate ss L = state_after ss (min L 15)"
    by (rule golden_spiral_generate_state_after)
  have len: "length (points (golden_spiral_generate ss L)) = 33 * min L 15"
    unfolding g by (rule length_points_state_after)
  have rlen: "length (rect_lines (golden_spiral_generate ss L)) = (if ss then min L 15 else 0)"
    unfolding g by (rule length_rect_lines_state_after)
  have w0: "work_before 0 = (0, 0, 1000 * phi, 1000)"
    by (simp add: gen_w_def gen_h_def)
  have big: "\<forall>k<min L 15. \<not> too_small (work_before k)"
    using not_too_small by simp
  have stop: "min L 15 < L \<longrightarrow> too_small (work_before (min L 15))"
    using too_small_15 by (simp add: min_def)
  have rest: "snd (snd (carve idx (lx, ly, lw, lh)))
       = (if idx mod 4 = 0 then (lx + min lw lh, ly, lw - min lw lh, lh)
          else if idx mod 4 = 1 then (lx, ly, lw, lh - min lw lh)
          else if idx mod 4 = 2 then (lx, ly, lw - min lw lh, lh)
          else (lx, ly + min lw lh, lw, lh - min lw lh))"
    by (simp add: carve_def Let_def)
  have sides: "map (\<lambda>k. case work_before k of (x, y, w, h) \<Rightarrow> min w h)
         [0, 1, 2, 3, 4, 5, 6, 7, 8, 9, 10, 11, 12, 13, 14]
       = [1000, 494427191 / 800000, 305572809 / 800000, 94427191 / 400000, 116718427 / 800000, 14427191 / 160000, 5572809 / 100000, 27553483 / 800000, 17028989 / 800000, 5262247 / 400000, 1300899 / 160000, 4019999 / 800000, 155281 / 50000, 1535503 / 800000, 948993 / 800000]"
    by (simp only: list.map work_before_values prod.case) simp
  have pt: "points (golden_spiral_generate ss L) ! (33 * k + i) = arc_points (arc_of k) ! i"
    if "k < min L 15" and "i \<le> 32" for k i
    unfolding g using that by (rule points_state_after_nth)
  have arcs: "\<forall>k<min L 15. \<forall>i\<le>32.
         points (golden_spiral_generate ss L) ! (33 * k + i)
           = (case work_before k of
                (x, y, w, h) \<Rightarrow>
                  (fst (if k mod 4 = 0 then (x + min w h, y)
                     else if k mod 4 = 1 then (x, y + h - min w h)
                     else if k mod 4 = 2 then (x + w - min w h, y + h)
                     else (x + w, y + min w h))
                     + min w h * cos (pi - (real (k mod 4) + real i / 32) * (pi / 2)),
                   snd (if k mod 4 = 0 then (x + min w h, y)
                     else if k mod 4 = 1 then (x, y + h - min w h)
                     else if k mod 4 = 2 then (x + w - min w h, y + h)
                     else (x + w, y + min w h))
                     + min w h * sin (pi - (real (k mod 4) + real i / 32) * (pi / 2))))"
  proof (intro allI impI)
    fix k i :: nat
    assume k: "k < min L 15" and i: "i \<le> 32"
    obtain x y w h where w: "work_before k = (x, y, w, h)"
      by (cases "work_before k") auto
    show "points (golden_spiral_generate ss L) ! (33 * k + i)
           = (case work_before k of
                (x, y, w, h) \<Rightarrow>
                  (fst (if k mod 4 = 0 then (x + min w h, y)
                     else if k mod 4 = 1 then (x, y + h - min w h)
                     else if k mod 4 = 2 then (x + w - min w h, y + h)
                     else (x + w, y + min w h))
                     + min w h * cos (pi - (real (k mod 4) + real i / 32) * (pi / 2)),
                   snd (if k mod 4 = 0 then (x + min w h, y)
                     else if k mod 4 = 1 then (x, y + h - min w h)
                     else if k mod 4 = 2 then (x + w - min w h, y + h)
                     else (x + w, y + min w h))
                     + min w h * sin (pi - (real (k mod 4) + real i / 32) * (pi / 2))))"
      unfolding pt [OF k i] w prod.case by (rule arc_point_formula [OF w i])
  qed
  have ends: "\<forall>k<min L 15.
         points (golden_spiral_generate ss L) ! (33 * k)
           = (case work_before k of
                (x, y, w, h) \<Rightarrow>
                  if k mod 4 = 0 then (x, y)
                  else if k mod 4 = 1 then (x, y + h)
                  else if k mod 4 = 2 then (x + w, y + h)
                  else (x + w, y))
         \<and> points (golden_spiral_generate ss L) ! (33 * k + 32)
           = (case work_before k of
                (x, y, w, h) \<Rightarrow>
                  if k mod 4 = 0 then (x + min w h, y + min w h)
                  else if k mod 4 = 1 then (x + min w h, y + h - min w h)
                  else if k mod 4 = 2 then (x + w - min w h, y + h - min w h)
                  else (x + w - min w h, y + min w h))"
  proof (intro allI impI)
    fix k :: nat
    assume k: "k < min L 15"
    obtain x y w h where w: "work_before k = (x, y, w, h)"
      by (cases "work_before k") auto
    have a: "points (golden_spiral_generate ss L) ! (33 * k) = arc_points (arc_of k) ! 0"
      using pt [OF k, of 0] by simp
    have b: "points (golden_spiral_generate ss L) ! (33 * k + 32) = arc_points (arc_of k) ! 32"
      using pt [OF k, of 32] by simp
    show "points (golden_spiral_generate ss L) ! (33 * k)
           = (case work_before k of
                (x, y, w, h) \<Rightarrow>
                  if k mod 4 = 0 then (x, y)
                  else if k mod 4 = 1 then (x, y + h)
                  else if k mod 4 = 2 then (x + w, y + h)
                  else (x + w, y))
         \<and> points (golden_spiral_generate ss L) ! (33 * k + 32)
           = (case work_before k of
                (x, y, w, h) \<Rightarrow>
                  if k mod 4 = 0 then (x + min w h, y + min w h)
                  else if k mod 4 = 1 then (x + min w h, y + h - min w h)
                  else if k mod 4 = 2 then (x + w - min w h, y + h - min w h)
                  else (x + w - min w h, y + min w h))"
      unfolding a b w prod.case using arc_first [OF w] arc_last [OF w] by (rule conjI)
  qed
  have joints: "\<forall>k. k + 1 < min L 15 \<longrightarrow>
         points (golden_spiral_generate ss L) ! (33 * k + 32)
           = points (golden_spiral_generate ss L) ! (33 * (k + 1))"
  proof (intro allI impI)
    fix k :: nat
    assume k: "k + 1 < min L 15"
    then have k0: "k < min L 15" and k15: "k + 1 < 15" by simp_all
    have "points (golden_spiral_generate ss L) ! (33 * k + 32) = arc_points (arc_of k) ! 32"
      using pt [OF k0, of 32] by simp
    also have "\<dots> = arc_points (arc_of (k + 1)) ! 0"
      using k15 by (rule arc_joint)
    also have "\<dots> = points (golden_spiral_generate ss L) ! (33 * (k + 1))"
      using pt [OF k, of 0] by simp
    finally show "points (golden_spiral_generate ss L) ! (33 * k + 32)
           = points (golden_spiral_generate ss L) ! (33 * (k + 1))" .
  qed
  have proper: "\<forall>k<min L 15. \<forall>i<32.
         points (golden_spiral_generate ss L) ! (33 * k + i)
           \<noteq> points (golden_spiral_generate ss L) ! (33 * k + i + 1)"
  proof (intro allI impI)
    fix k i :: nat
    assume k: "k < min L 15" and i: "i < 32"
    from k big have nb: "\<not> too_small (work_before k)" by simp
    have a: "points (golden_spiral_generate ss L) ! (33 * k + i) = arc_points (arc_of k) ! i"
      using pt [OF k, of i] i by simp
    have b: "points (golden_spiral_generate ss L) ! (33 * k + i + 1) = arc_points (arc_of k) ! (i + 1)"
      using pt [OF k, of "i + 1"] i by (simp add: add.assoc)
    show "points (golden_spiral_generate ss L) ! (33 * k + i)
           \<noteq> points (golden_spiral_generate ss L) ! (33 * k + i + 1)"
      unfolding a b using nb i by (rule arc_of_proper)
  qed
  have bounds: "ss \<longrightarrow>
        (\<forall>k<min L 15.
           rect_lines (golden_spiral_generate ss L) ! k
             = (case work_before k of
                  (x, y, w, h) \<Rightarrow>
                    if k mod 4 = 0 then ((x + min w h, y), (x + min w h, y + h))
                    else if k mod 4 = 1 then ((x, y + h - min w h), (x + w, y + h - min w h))
                    else if k mod 4 = 2 then ((x + w - min w h, y), (x + w - min w h, y + h))
                    else ((x, y + min w h), (x + w, y + min w h))))"
  proof (intro allI impI)
    fix k :: nat
    assume ss: ss and k: "k < min L 15"
    obtain x y w h where w: "work_before k = (x, y, w, h)"
      by (cases "work_before k") auto
    from ss k have "rect_lines (golden_spiral_generate ss L) ! k = boundary_of k"
      unfolding g by (simp add: state_after_def)
    also have "\<dots> = (if k mod 4 = 0 then ((x + min w h, y), (x + min w h, y + h))
                    else if k mod 4 = 1 then ((x, y + h - min w h), (x + w, y + h - min w h))
                    else if k mod 4 = 2 then ((x + w - min w h, y), (x + w - min w h, y + h))
                    else ((x, y + min w h), (x + w, y + min w h)))"
      by (simp add: boundary_of_def w carve_def Let_def)
    finally show "rect_lines (golden_spiral_generate ss L) ! k
             = (case work_before k of
                  (x, y, w, h) \<Rightarrow>
                    if k mod 4 = 0 then ((x + min w h, y), (x + min w h, y + h))
                    else if k mod 4 = 1 then ((x, y + h - min w h), (x + w, y + h - min w h))
                    else if k mod 4 = 2 then ((x + w - min w h, y), (x + w - min w h, y + h))
                    else ((x, y + min w h), (x + w, y + min w h)))"
      unfolding w prod.case .
  qed
  have lines: "\<forall>j. j + 1 < 33 * min L 15 \<longrightarrow>
         golden_spiral_lines ss L ! j
           = (points (golden_spiral_generate ss L) ! j,
              points (golden_spiral_generate ss L) ! (j + 1))"
  proof (intro allI impI)
    fix j :: nat
    assume "j + 1 < 33 * min L 15"
    then have "j + 1 < length (points (golden_spiral_generate ss L))"
      by (simp only: len)
    then show "golden_spiral_lines ss L ! j
           = (points (golden_spiral_generate ss L) ! j,
              points (golden_spiral_generate ss L) ! (j + 1))"
      unfolding golden_spiral_lines_def Let_def by (rule curve_lines_nth)
  qed
  have count:
    "length (golden_spiral_lines ss L) = 33 * min L 15 - 1 + (if ss then min L 15 else 0)"
    by (rule golden_spiral_lines_length)
  have degenerate: "\<forall>j. j + 1 < 33 * min L 15 \<longrightarrow>
         (points (golden_spiral_generate ss L) ! j = points (golden_spiral_generate ss L) ! (j + 1))
           = (j mod 33 = 32)"
  proof (intro allI impI)
    fix j :: nat
    assume j: "j + 1 < 33 * min L 15"
    define k where "k = j div 33"
    define i where "i = j mod 33"
    have ji: "j = 33 * k + i" and i33: "i < 33" by (simp_all add: k_def i_def)
    from j ji have "33 * k < 33 * min L 15" by linarith
    then have k: "k < min L 15" by (rule block_less)
    show "(points (golden_spiral_generate ss L) ! j = points (golden_spiral_generate ss L) ! (j + 1))
           = (j mod 33 = 32)"
    proof (cases "i = 32")
      case True
      then have m: "j mod 33 = 32" unfolding i_def .
      from True ji have j1: "j = 33 * k + 32" and j2: "j + 1 = 33 * (k + 1)" by simp_all
      from j have "33 * (k + 1) < 33 * min L 15" by (simp only: j2)
      then have "k + 1 < min L 15" by (rule block_less)
      with joints have "points (golden_spiral_generate ss L) ! (33 * k + 32)
           = points (golden_spiral_generate ss L) ! (33 * (k + 1))" by blast
      then have "points (golden_spiral_generate ss L) ! j
           = points (golden_spiral_generate ss L) ! (j + 1)"
        unfolding j1 [symmetric] j2 [symmetric] .
      with m show ?thesis by blast
    next
      case False
      then have m: "j mod 33 \<noteq> 32" unfolding i_def .
      from False i33 have "i < 32" by simp
      with proper k have "points (golden_spiral_generate ss L) ! (33 * k + i)
           \<noteq> points (golden_spiral_generate ss L) ! (33 * k + i + 1)" by blast
      then have "points (golden_spiral_generate ss L) ! j
           \<noteq> points (golden_spiral_generate ss L) ! (j + 1)"
        unfolding ji [symmetric] .
      with m show ?thesis by blast
    qed
  qed
  from len rlen w0 big stop rest sides arcs ends joints proper bounds lines degenerate count
  show ?thesis by (intro conjI)
qed

theorem golden_spiral_iterations_witness:
  "length (points (golden_spiral_generate True 8)) = 264
   \<and> length (rect_lines (golden_spiral_generate True 8)) = 8
   \<and> length (golden_spiral_lines True 8) = 271
   \<and> \<not> too_small (work_before 7)
   \<and> points (golden_spiral_generate True 8) ! 0 = (0, 0)
   \<and> points (golden_spiral_generate True 8) ! 16
       = (1000 + 1000 * cos (pi - (0 + 16 / 32) * (pi / 2)),
          0 + 1000 * sin (pi - (0 + 16 / 32) * (pi / 2)))
   \<and> points (golden_spiral_generate True 8) ! 32 = (1000, 1000)
   \<and> points (golden_spiral_generate True 8) ! 33 = (1000, 1000)
   \<and> points (golden_spiral_generate True 8) ! 0 \<noteq> points (golden_spiral_generate True 8) ! 1
   \<and> rect_lines (golden_spiral_generate True 8) ! 0 = ((1000, 0), (1000, 1000))
   \<and> golden_spiral_lines True 8 ! 32 = ((1000, 1000), (1000, 1000))
   \<and> length (points (golden_spiral_generate False 24)) = 495
   \<and> too_small (work_before 15)"
proof -
  note t = golden_spiral_iterations [where ss = True and L = 8]
  note u = golden_spiral_iterations [where ss = False and L = 24]
  have m: "min (8::nat) 15 = 8" "min (24::nat) 15 = 15" by simp_all
  have w0: "work_before 0 = (0, 0, 1294427191 / 800000, 1000)"
    by (rule work_before_values)
  from t have a: "length (points (golden_spiral_generate True 8)) = 264"
    unfolding m by simp
  from t have b: "length (rect_lines (golden_spiral_generate True 8)) = 8"
    unfolding m by simp
  from t have c: "length (golden_spiral_lines True 8) = 271"
    unfolding m by simp
  from t have "\<forall>k<8. \<not> too_small (work_before k)"
    unfolding m by blast
  then have d: "\<not> too_small (work_before 7)" by simp
  from t have ends: "\<forall>k<8.
         points (golden_spiral_generate True 8) ! (33 * k)
           = (case work_before k of
                (x, y, w, h) \<Rightarrow>
                  if k mod 4 = 0 then (x, y)
                  else if k mod 4 = 1 then (x, y + h)
                  else if k mod 4 = 2 then (x + w, y + h)
                  else (x + w, y))
         \<and> points (golden_spiral_generate True 8) ! (33 * k + 32)
           = (case work_before k of
                (x, y, w, h) \<Rightarrow>
                  if k mod 4 = 0 then (x + min w h, y + min w h)
                  else if k mod 4 = 1 then (x + min w h, y + h - min w h)
                  else if k mod 4 = 2 then (x + w - min w h, y + h - min w h)
                  else (x + w - min w h, y + min w h))"
    unfolding m by blast
  from ends [rule_format, of 0] have e: "points (golden_spiral_generate True 8) ! 0 = (0, 0)"
    and f: "points (golden_spiral_generate True 8) ! 32 = (1000, 1000)"
    unfolding w0 by simp_all
  from t have arcs: "\<forall>k<8. \<forall>i\<le>32.
         points (golden_spiral_generate True 8) ! (33 * k + i)
           = (case work_before k of
                (x, y, w, h) \<Rightarrow>
                  (fst (if k mod 4 = 0 then (x + min w h, y)
                     else if k mod 4 = 1 then (x, y + h - min w h)
                     else if k mod 4 = 2 then (x + w - min w h, y + h)
                     else (x + w, y + min w h))
                     + min w h * cos (pi - (real (k mod 4) + real i / 32) * (pi / 2)),
                   snd (if k mod 4 = 0 then (x + min w h, y)
                     else if k mod 4 = 1 then (x, y + h - min w h)
                     else if k mod 4 = 2 then (x + w - min w h, y + h)
                     else (x + w, y + min w h))
                     + min w h * sin (pi - (real (k mod 4) + real i / 32) * (pi / 2))))"
    unfolding m by blast
  from arcs [rule_format, of 0 16] have g: "points (golden_spiral_generate True 8) ! 16
       = (1000 + 1000 * cos (pi - (0 + 16 / 32) * (pi / 2)),
          0 + 1000 * sin (pi - (0 + 16 / 32) * (pi / 2)))"
    unfolding w0 by simp
  from t have "\<forall>k. k + 1 < 8 \<longrightarrow>
         points (golden_spiral_generate True 8) ! (33 * k + 32)
           = points (golden_spiral_generate True 8) ! (33 * (k + 1))"
    unfolding m by blast
  from this [rule_format, of 0] f have h: "points (golden_spiral_generate True 8) ! 33 = (1000, 1000)"
    by simp
  from t have "\<forall>k<8. \<forall>i<32.
         points (golden_spiral_generate True 8) ! (33 * k + i)
           \<noteq> points (golden_spiral_generate True 8) ! (33 * k + i + 1)"
    unfolding m by blast
  from this [rule_format, of 0 0]
  have i: "points (golden_spiral_generate True 8) ! 0 \<noteq> points (golden_spiral_generate True 8) ! 1"
    by simp
  from t have "\<forall>k<8.
           rect_lines (golden_spiral_generate True 8) ! k
             = (case work_before k of
                  (x, y, w, h) \<Rightarrow>
                    if k mod 4 = 0 then ((x + min w h, y), (x + min w h, y + h))
                    else if k mod 4 = 1 then ((x, y + h - min w h), (x + w, y + h - min w h))
                    else if k mod 4 = 2 then ((x + w - min w h, y), (x + w - min w h, y + h))
                    else ((x, y + min w h), (x + w, y + min w h)))"
    unfolding m by blast
  from this [rule_format, of 0]
  have j: "rect_lines (golden_spiral_generate True 8) ! 0 = ((1000, 0), (1000, 1000))"
    unfolding w0 by simp
  from t have "\<forall>j. j + 1 < 33 * 8 \<longrightarrow>
         golden_spiral_lines True 8 ! j
           = (points (golden_spiral_generate True 8) ! j,
              points (golden_spiral_generate True 8) ! (j + 1))"
    unfolding m by blast
  from this [rule_format, of 32] f h
  have k: "golden_spiral_lines True 8 ! 32 = ((1000, 1000), (1000, 1000))"
    by simp
  from u have l: "length (points (golden_spiral_generate False 24)) = 495"
    unfolding m by simp
  from u have "min 24 15 < (24::nat) \<longrightarrow> too_small (work_before (min 24 15))"
    by blast
  then have n: "too_small (work_before 15)" by simp
  from a b c d e g f h i j k l n show ?thesis by (intro conjI)
qed

text \<open>
  C3 as stated has \<open>8 * 32\<close> lines of the curve for \<open>L = 8\<close> and 8 more with the boundary
  lines. The lines handed on are 263 and 271: between each two consecutive arcs there is
  one more line.
\<close>

theorem golden_spiral_line_count_counterexample:
  "length (golden_spiral_lines False 8) = 263
   \<and> length (golden_spiral_lines False 8) \<noteq> 8 * 32
   \<and> length (golden_spiral_lines True 8) = 271
   \<and> length (golden_spiral_lines True 8) \<noteq> 8 * 32 + 8"
  by (simp add: golden_spiral_lines_length)

subsection \<open>Cohen-Sutherland clipping\<close>

lemma code_bits:
  "compute_code (rx, ry, rw, rh) x y AND LEFT \<noteq> 0 \<longleftrightarrow> x < rx"
  "compute_code (rx, ry, rw, rh) x y AND RIGHT \<noteq> 0 \<longleftrightarrow> \<not> x < rx \<and> x > rx + rw"
  "compute_code (rx, ry, rw, rh) x y AND BOTTOM \<noteq> 0 \<longleftrightarrow> y < ry"
  "compute_code (rx, ry, rw, rh) x y AND TOP \<noteq> 0 \<longleftrightarrow> \<not> y < ry \<and> y > ry + rh"
  by (simp_all add: compute_code_def INSIDE_def LEFT_def RIGHT_def BOTTOM_def TOP_def Let_def)

lemma code_zero:
  "compute_code (rx, ry, rw, rh) x y = 0
     \<longleftrightarrow> \<not> x < rx \<and> \<not> x > rx + rw \<and> \<not> y < ry \<and> \<not> y > ry + rh"
  by (simp add: compute_code_def INSIDE_def LEFT_def RIGHT_def BOTTOM_def TOP_def Let_def)

lemma code_common:
  "compute_code (rx, ry, rw, rh) x1 y1 AND compute_code (rx, ry, rw, rh) x2 y2 \<noteq> 0
     \<longleftrightarrow> (x1 < rx \<and> x2 < rx)
       \<or> (\<not> x1 < rx \<and> x1 > rx + rw \<and> \<not> x2 < rx \<and> x2 > rx + rw)
       \<or> (y1 < ry \<and> y2 < ry)
       \<or> (\<not> y1 < ry \<and> y1 > ry + rh \<and> \<not> y2 < ry \<and> y2 > ry + rh)"
  by (simp add: compute_code_def INSIDE_def LEFT_def RIGHT_def BOTTOM_def TOP_def Let_def)

lemma pt_end: "pt a b 0 = a" "pt a b 1 = b"
  by (simp_all add: pt_def)

lemma pt_pt_right: "pt (pt a b s) b u = pt a b (s + u * (1 - s))"
  by (simp add: pt_def algebra_simps)

lemma pt_pt_left: "pt a (pt a b s) u = pt a b (u * s)"
  by (simp add: pt_def algebra_simps)

lemma step_param_a:
  fixes fa fb \<beta> :: real
  assumes "fa > \<beta>" and "fb \<le> \<beta>"
  defines "s \<equiv> (\<beta> - fa) / (fb - fa)"
  shows "0 \<le> s" "s \<le> 1" "fa + s * (fb - fa) = \<beta>" "\<And>t. fa + t * (fb - fa) \<le> \<beta> \<Longrightarrow> s \<le> t"
proof -
  have d: "fb - fa < 0" using assms by simp
  show "0 \<le> s" using assms d by (simp add: s_def divide_nonpos_neg)
  show "s \<le> 1" using assms d by (simp add: s_def divide_le_eq)
  show e: "fa + s * (fb - fa) = \<beta>" using d by (simp add: s_def)
  fix t assume "fa + t * (fb - fa) \<le> \<beta>"
  with e have "t * (fb - fa) \<le> s * (fb - fa)" by simp
  with d show "s \<le> t" by (simp add: mult_le_cancel_right)
qed

lemma step_param_b:
  fixes fa fb \<beta> :: real
  assumes "fb > \<beta>" and "fa \<le> \<beta>"
  defines "s \<equiv> (\<beta> - fa) / (fb - fa)"
  shows "0 \<le> s" "s \<le> 1" "fa + s * (fb - fa) = \<beta>" "\<And>t. fa + t * (fb - fa) \<le> \<beta> \<Longrightarrow> t \<le> s"
proof -
  have d: "fb - fa > 0" using assms by simp
  show "0 \<le> s" using assms d by (simp add: s_def)
  show "s \<le> 1" using assms d by (simp add: s_def divide_le_eq)
  show e: "fa + s * (fb - fa) = \<beta>" using d by (simp add: s_def)
  fix t assume "fa + t * (fb - fa) \<le> \<beta>"
  with e have "t * (fb - fa) \<le> s * (fb - fa)" by simp
  with d show "t \<le> s" by (simp add: mult_le_cancel_right)
qed

lemma clip_a:
  assumes s: "0 \<le> s" "s \<le> 1"
    and bound: "\<And>t. 0 \<le> t \<Longrightarrow> t \<le> 1 \<Longrightarrow> inside r (pt a b t) \<Longrightarrow> s \<le> t"
    and p: "inside r p"
  shows "on_segment (pt a b s) b p \<longleftrightarrow> on_segment a b p"
proof
  assume "on_segment (pt a b s) b p"
  then obtain u where u: "0 \<le> u" "u \<le> 1" "p = pt a b (s + u * (1 - s))"
    by (auto simp: on_segment_def pt_pt_right)
  have "0 \<le> s + u * (1 - s)" using s u by simp
  moreover have "s + u * (1 - s) \<le> 1"
  proof -
    have "u * (1 - s) \<le> 1 * (1 - s)" using s u by (intro mult_right_mono) simp_all
    then show ?thesis by simp
  qed
  ultimately show "on_segment a b p" using u(3) by (auto simp: on_segment_def)
next
  assume "on_segment a b p"
  then obtain t where t: "0 \<le> t" "t \<le> 1" "p = pt a b t"
    by (auto simp: on_segment_def)
  with bound p have st: "s \<le> t" by simp
  show "on_segment (pt a b s) b p"
  proof (cases "s = 1")
    case True
    with st t have "t = 1" by simp
    with True t(3) have "p = pt (pt a b s) b 0" by (simp add: pt_pt_right)
    then show ?thesis unfolding on_segment_def by (intro exI [of _ 0]) simp
  next
    case False
    with s have s1: "0 < 1 - s" by simp
    let ?u = "(t - s) / (1 - s)"
    have "0 \<le> ?u" using st s1 by simp
    moreover have "?u \<le> 1" using t s1 by (simp add: divide_le_eq)
    moreover have "s + ?u * (1 - s) = t" using s1 by simp
    then have "p = pt (pt a b s) b ?u" using t(3) by (simp add: pt_pt_right)
    ultimately show ?thesis unfolding on_segment_def by blast
  qed
qed

lemma clip_b:
  assumes s: "0 \<le> s" "s \<le> 1"
    and bound: "\<And>t. 0 \<le> t \<Longrightarrow> t \<le> 1 \<Longrightarrow> inside r (pt a b t) \<Longrightarrow> t \<le> s"
    and p: "inside r p"
  shows "on_segment a (pt a b s) p \<longleftrightarrow> on_segment a b p"
proof
  assume "on_segment a (pt a b s) p"
  then obtain u where u: "0 \<le> u" "u \<le> 1" "p = pt a b (u * s)"
    by (auto simp: on_segment_def pt_pt_left)
  have "0 \<le> u * s" using s u by simp
  moreover have "u * s \<le> 1" using s u by (simp add: mult_le_one)
  ultimately show "on_segment a b p" using u(3) by (auto simp: on_segment_def)
next
  assume "on_segment a b p"
  then obtain t where t: "0 \<le> t" "t \<le> 1" "p = pt a b t"
    by (auto simp: on_segment_def)
  with bound p have st: "t \<le> s" by simp
  show "on_segment a (pt a b s) p"
  proof (cases "s = 0")
    case True
    with st t have "t = 0" by simp
    with True t(3) have "p = pt a (pt a b s) 0" by (simp add: pt_pt_left)
    then show ?thesis unfolding on_segment_def by (intro exI [of _ 0]) simp
  next
    case False
    with s have s1: "0 < s" by simp
    let ?u = "t / s"
    have "0 \<le> ?u" using t s1 by simp
    moreover have "?u \<le> 1" using st s1 by (simp add: divide_le_eq)
    moreover have "?u * s = t" using s1 by simp
    then have "p = pt a (pt a b s) ?u" using t(3) by (simp add: pt_pt_left)
    ultimately show ?thesis unfolding on_segment_def by blast
  qed
qed

lemma convex_lower:
  fixes u v c s :: real
  assumes "0 \<le> s" "s \<le> 1" "c \<le> u" "c \<le> v"
  shows "c \<le> u + s * (v - u)"
proof -
  have "(1 - s) * c \<le> (1 - s) * u" using assms by (intro mult_left_mono) simp_all
  moreover have "s * c \<le> s * v" using assms by (intro mult_left_mono) simp_all
  ultimately have "(1 - s) * c + s * c \<le> (1 - s) * u + s * v" by (rule add_mono)
  then show ?thesis by (simp add: algebra_simps)
qed

lemma convex_upper:
  fixes u v c s :: real
  assumes "0 \<le> s" "s \<le> 1" "u \<le> c" "v \<le> c"
  shows "u + s * (v - u) \<le> c"
proof -
  have "(1 - s) * u \<le> (1 - s) * c" using assms by (intro mult_left_mono) simp_all
  moreover have "s * v \<le> s * c" using assms by (intro mult_left_mono) simp_all
  ultimately have "(1 - s) * u + s * v \<le> (1 - s) * c + s * c" by (rule add_mono)
  then show ?thesis by (simp add: algebra_simps)
qed

lemma pt_between:
  assumes "0 \<le> s" "s \<le> 1"
  shows "fst (pt a b s) < c \<Longrightarrow> fst a < c \<or> fst b < c"
    and "fst (pt a b s) > c \<Longrightarrow> fst a > c \<or> fst b > c"
    and "snd (pt a b s) < c \<Longrightarrow> snd a < c \<or> snd b < c"
    and "snd (pt a b s) > c \<Longrightarrow> snd a > c \<or> snd b > c"
proof -
  show "fst (pt a b s) < c \<Longrightarrow> fst a < c \<or> fst b < c"
    using convex_lower [OF assms, of c "fst a" "fst b"]
    by (cases "c \<le> fst a"; cases "c \<le> fst b"; simp add: pt_def)
  show "fst (pt a b s) > c \<Longrightarrow> fst a > c \<or> fst b > c"
    using convex_upper [OF assms, of "fst a" c "fst b"]
    by (cases "fst a \<le> c"; cases "fst b \<le> c"; simp add: pt_def)
  show "snd (pt a b s) < c \<Longrightarrow> snd a < c \<or> snd b < c"
    using convex_lower [OF assms, of c "snd a" "snd b"]
    by (cases "c \<le> snd a"; cases "c \<le> snd b"; simp add: pt_def)
  show "snd (pt a b s) > c \<Longrightarrow> snd a > c \<or> snd b > c"
    using convex_upper [OF assms, of "snd a" c "snd b"]
    by (cases "snd a \<le> c"; cases "snd b \<le> c"; simp add: pt_def)
qed

lemma inside_convex:
  assumes "inside r a" "inside r b" "on_segment a b p"
  shows "inside r p"
proof -
  obtain rx ry rw rh where r: "r = (rx, ry, rw, rh)" by (cases r) auto
  from assms(3) obtain t where t: "0 \<le> t" "t \<le> 1" "p = pt a b t"
    by (auto simp: on_segment_def)
  from assms(1,2) show ?thesis
    using convex_lower [OF t(1,2), of rx "fst a" "fst b"]
      convex_upper [OF t(1,2), of "fst a" "rx + rw" "fst b"]
      convex_lower [OF t(1,2), of ry "snd a" "snd b"]
      convex_upper [OF t(1,2), of "snd a" "ry + rh" "snd b"]
    by (simp add: inside_def r t(3) pt_def)
qed

lemma step_param_a_low:
  fixes fa fb \<beta> :: real
  assumes "fa < \<beta>" and "fb \<ge> \<beta>"
  defines "s \<equiv> (\<beta> - fa) / (fb - fa)"
  shows "0 \<le> s" "s \<le> 1" "fa + s * (fb - fa) = \<beta>" "\<And>t. fa + t * (fb - fa) \<ge> \<beta> \<Longrightarrow> s \<le> t"
proof -
  have d: "fb - fa > 0" using assms by simp
  show "0 \<le> s" using assms d by (simp add: s_def)
  show "s \<le> 1" using assms d by (simp add: s_def divide_le_eq)
  show e: "fa + s * (fb - fa) = \<beta>" using d by (simp add: s_def)
  fix t assume "fa + t * (fb - fa) \<ge> \<beta>"
  with e have "s * (fb - fa) \<le> t * (fb - fa)" by simp
  with d show "s \<le> t" by (simp add: mult_le_cancel_right)
qed

lemma step_param_b_low:
  fixes fa fb \<beta> :: real
  assumes "fb < \<beta>" and "fa \<ge> \<beta>"
  defines "s \<equiv> (\<beta> - fa) / (fb - fa)"
  shows "0 \<le> s" "s \<le> 1" "fa + s * (fb - fa) = \<beta>" "\<And>t. fa + t * (fb - fa) \<ge> \<beta> \<Longrightarrow> t \<le> s"
proof -
  have d: "fb - fa < 0" using assms by simp
  show "0 \<le> s" using assms d by (simp add: s_def divide_nonpos_neg)
  show "s \<le> 1" using assms d by (simp add: s_def divide_le_eq)
  show e: "fa + s * (fb - fa) = \<beta>" using d by (simp add: s_def)
  fix t assume "fa + t * (fb - fa) \<ge> \<beta>"
  with e have "s * (fb - fa) \<le> t * (fb - fa)" by simp
  with d show "t \<le> s" by (simp add: mult_le_cancel_right)
qed

lemma clip_top_a:
  fixes r :: frame
  assumes dims: "0 \<le> rw" "0 \<le> rh" and r: "r = (rx, ry, rw, rh)"
    and out: "y1 > ry + rh" and other: "y2 \<le> ry + rh"
    and X_def: "X = (x1 + (x2 - x1) * (ry + rh - y1) / (y2 - y1), ry + rh)"
  shows "y2 - y1 \<noteq> 0"
    and "inside r p \<Longrightarrow> on_segment X (x2, y2) p \<longleftrightarrow> on_segment (x1, y1) (x2, y2) p"
    and "outside_count r X (x2, y2) < outside_count r (x1, y1) (x2, y2)"
proof -
  define s where "s = (ry + rh - y1) / (y2 - y1)"
  note sp = step_param_a [OF out other, folded s_def]
  show "y2 - y1 \<noteq> 0" using out other by simp
  have X: "X = pt (x1, y1) (x2, y2) s"
    using sp(3) by (simp add: X_def pt_def s_def)
  have bound: "s \<le> t" if "inside r (pt (x1, y1) (x2, y2) t)" for t
    using that by (intro sp(4)) (simp add: inside_def r pt_def)
  show "inside r p \<Longrightarrow> on_segment X (x2, y2) p \<longleftrightarrow> on_segment (x1, y1) (x2, y2) p"
    unfolding X using sp(1,2) bound by (rule clip_a)
  have f: "snd X = ry + rh" by (simp add: X_def)
  show "outside_count r X (x2, y2) < outside_count r (x1, y1) (x2, y2)"
    using pt_between(1) [OF sp(1,2), of "(x1, y1)" "(x2, y2)" rx, folded X]
      pt_between(2) [OF sp(1,2), of "rx + rw" "(x1, y1)" "(x2, y2)", folded X]
      out other dims f
    by (auto simp: outside_count_def r of_bool_def)
qed

lemma clip_top_b:
  fixes r :: frame
  assumes dims: "0 \<le> rw" "0 \<le> rh" and r: "r = (rx, ry, rw, rh)"
    and out: "y2 > ry + rh" and other: "y1 \<le> ry + rh"
    and X_def: "X = (x1 + (x2 - x1) * (ry + rh - y1) / (y2 - y1), ry + rh)"
  shows "y2 - y1 \<noteq> 0"
    and "inside r p \<Longrightarrow> on_segment (x1, y1) X p \<longleftrightarrow> on_segment (x1, y1) (x2, y2) p"
    and "outside_count r (x1, y1) X < outside_count r (x1, y1) (x2, y2)"
proof -
  define s where "s = (ry + rh - y1) / (y2 - y1)"
  note sp = step_param_b [OF out other, folded s_def]
  show "y2 - y1 \<noteq> 0" using out other by simp
  have X: "X = pt (x1, y1) (x2, y2) s"
    using sp(3) by (simp add: X_def pt_def s_def)
  have bound: "t \<le> s" if "inside r (pt (x1, y1) (x2, y2) t)" for t
    using that by (intro sp(4)) (simp add: inside_def r pt_def)
  show "inside r p \<Longrightarrow> on_segment (x1, y1) X p \<longleftrightarrow> on_segment (x1, y1) (x2, y2) p"
    unfolding X using sp(1,2) bound by (rule clip_b)
  have f: "snd X = ry + rh" by (simp add: X_def)
  show "outside_count r (x1, y1) X < outside_count r (x1, y1) (x2, y2)"
    using pt_between(1) [OF sp(1,2), of "(x1, y1)" "(x2, y2)" rx, folded X]
      pt_between(2) [OF sp(1,2), of "rx + rw" "(x1, y1)" "(x2, y2)", folded X]
      out other dims f
    by (auto simp: outside_count_def r of_bool_def)
qed

lemma clip_bottom_a:
  fixes r :: frame
  assumes dims: "0 \<le> rw" "0 \<le> rh" and r: "r = (rx, ry, rw, rh)"
    and out: "y1 < ry" and other: "y2 \<ge> ry"
    and X_def: "X = (x1 + (x2 - x1) * (ry - y1) / (y2 - y1), ry)"
  shows "y2 - y1 \<noteq> 0"
    and "inside r p \<Longrightarrow> on_segment X (x2, y2) p \<longleftrightarrow> on_segment (x1, y1) (x2, y2) p"
    and "outside_count r X (x2, y2) < outside_count r (x1, y1) (x2, y2)"
proof -
  define s where "s = (ry - y1) / (y2 - y1)"
  note sp = step_param_a_low [OF out other, folded s_def]
  show "y2 - y1 \<noteq> 0" using out other by simp
  have X: "X = pt (x1, y1) (x2, y2) s"
    using sp(3) by (simp add: X_def pt_def s_def)
  have bound: "s \<le> t" if "inside r (pt (x1, y1) (x2, y2) t)" for t
    using that by (intro sp(4)) (simp add: inside_def r pt_def)
  show "inside r p \<Longrightarrow> on_segment X (x2, y2) p \<longleftrightarrow> on_segment (x1, y1) (x2, y2) p"
    unfolding X using sp(1,2) bound by (rule clip_a)
  have f: "snd X = ry" by (simp add: X_def)
  show "outside_count r X (x2, y2) < outside_count r (x1, y1) (x2, y2)"
    using pt_between(1) [OF sp(1,2), of "(x1, y1)" "(x2, y2)" rx, folded X]
      pt_between(2) [OF sp(1,2), of "rx + rw" "(x1, y1)" "(x2, y2)", folded X]
      out other dims f
    by (auto simp: outside_count_def r of_bool_def)
qed

lemma clip_bottom_b:
  fixes r :: frame
  assumes dims: "0 \<le> rw" "0 \<le> rh" and r: "r = (rx, ry, rw, rh)"
    and out: "y2 < ry" and other: "y1 \<ge> ry"
    and X_def: "X = (x1 + (x2 - x1) * (ry - y1) / (y2 - y1), ry)"
  shows "y2 - y1 \<noteq> 0"
    and "inside r p \<Longrightarrow> on_segment (x1, y1) X p \<longleftrightarrow> on_segment (x1, y1) (x2, y2) p"
    and "outside_count r (x1, y1) X < outside_count r (x1, y1) (x2, y2)"
proof -
  define s where "s = (ry - y1) / (y2 - y1)"
  note sp = step_param_b_low [OF out other, folded s_def]
  show "y2 - y1 \<noteq> 0" using out other by simp
  have X: "X = pt (x1, y1) (x2, y2) s"
    using sp(3) by (simp add: X_def pt_def s_def)
  have bound: "t \<le> s" if "inside r (pt (x1, y1) (x2, y2) t)" for t
    using that by (intro sp(4)) (simp add: inside_def r pt_def)
  show "inside r p \<Longrightarrow> on_segment (x1, y1) X p \<longleftrightarrow> on_segment (x1, y1) (x2, y2) p"
    unfolding X using sp(1,2) bound by (rule clip_b)
  have f: "snd X = ry" by (simp add: X_def)
  show "outside_count r (x1, y1) X < outside_count r (x1, y1) (x2, y2)"
    using pt_between(1) [OF sp(1,2), of "(x1, y1)" "(x2, y2)" rx, folded X]
      pt_between(2) [OF sp(1,2), of "rx + rw" "(x1, y1)" "(x2, y2)", folded X]
      out other dims f
    by (auto simp: outside_count_def r of_bool_def)
qed

lemma clip_right_a:
  fixes r :: frame
  assumes dims: "0 \<le> rw" "0 \<le> rh" and r: "r = (rx, ry, rw, rh)"
    and out: "x1 > rx + rw" and other: "x2 \<le> rx + rw"
    and X_def: "X = (rx + rw, y1 + (y2 - y1) * (rx + rw - x1) / (x2 - x1))"
  shows "x2 - x1 \<noteq> 0"
    and "inside r p \<Longrightarrow> on_segment X (x2, y2) p \<longleftrightarrow> on_segment (x1, y1) (x2, y2) p"
    and "outside_count r X (x2, y2) < outside_count r (x1, y1) (x2, y2)"
proof -
  define s where "s = (rx + rw - x1) / (x2 - x1)"
  note sp = step_param_a [OF out other, folded s_def]
  show "x2 - x1 \<noteq> 0" using out other by simp
  have X: "X = pt (x1, y1) (x2, y2) s"
    using sp(3) by (simp add: X_def pt_def s_def)
  have bound: "s \<le> t" if "inside r (pt (x1, y1) (x2, y2) t)" for t
    using that by (intro sp(4)) (simp add: inside_def r pt_def)
  show "inside r p \<Longrightarrow> on_segment X (x2, y2) p \<longleftrightarrow> on_segment (x1, y1) (x2, y2) p"
    unfolding X using sp(1,2) bound by (rule clip_a)
  have f: "fst X = rx + rw" by (simp add: X_def)
  show "outside_count r X (x2, y2) < outside_count r (x1, y1) (x2, y2)"
    using pt_between(3) [OF sp(1,2), of "(x1, y1)" "(x2, y2)" ry, folded X]
      pt_between(4) [OF sp(1,2), of "ry + rh" "(x1, y1)" "(x2, y2)", folded X]
      out other dims f
    by (auto simp: outside_count_def r of_bool_def)
qed

lemma clip_right_b:
  fixes r :: frame
  assumes dims: "0 \<le> rw" "0 \<le> rh" and r: "r = (rx, ry, rw, rh)"
    and out: "x2 > rx + rw" and other: "x1 \<le> rx + rw"
    and X_def: "X = (rx + rw, y1 + (y2 - y1) * (rx + rw - x1) / (x2 - x1))"
  shows "x2 - x1 \<noteq> 0"
    and "inside r p \<Longrightarrow> on_segment (x1, y1) X p \<longleftrightarrow> on_segment (x1, y1) (x2, y2) p"
    and "outside_count r (x1, y1) X < outside_count r (x1, y1) (x2, y2)"
proof -
  define s where "s = (rx + rw - x1) / (x2 - x1)"
  note sp = step_param_b [OF out other, folded s_def]
  show "x2 - x1 \<noteq> 0" using out other by simp
  have X: "X = pt (x1, y1) (x2, y2) s"
    using sp(3) by (simp add: X_def pt_def s_def)
  have bound: "t \<le> s" if "inside r (pt (x1, y1) (x2, y2) t)" for t
    using that by (intro sp(4)) (simp add: inside_def r pt_def)
  show "inside r p \<Longrightarrow> on_segment (x1, y1) X p \<longleftrightarrow> on_segment (x1, y1) (x2, y2) p"
    unfolding X using sp(1,2) bound by (rule clip_b)
  have f: "fst X = rx + rw" by (simp add: X_def)
  show "outside_count r (x1, y1) X < outside_count r (x1, y1) (x2, y2)"
    using pt_between(3) [OF sp(1,2), of "(x1, y1)" "(x2, y2)" ry, folded X]
      pt_between(4) [OF sp(1,2), of "ry + rh" "(x1, y1)" "(x2, y2)", folded X]
      out other dims f
    by (auto simp: outside_count_def r of_bool_def)
qed

lemma clip_left_a:
  fixes r :: frame
  assumes dims: "0 \<le> rw" "0 \<le> rh" and r: "r = (rx, ry, rw, rh)"
    and out: "x1 < rx" and other: "x2 \<ge> rx"
    and X_def: "X = (rx, y1 + (y2 - y1) * (rx - x1) / (x2 - x1))"
  shows "x2 - x1 \<noteq> 0"
    and "inside r p \<Longrightarrow> on_segment X (x2, y2) p \<longleftrightarrow> on_segment (x1, y1) (x2, y2) p"
    and "outside_count r X (x2, y2) < outside_count r (x1, y1) (x2, y2)"
proof -
  define s where "s = (rx - x1) / (x2 - x1)"
  note sp = step_param_a_low [OF out other, folded s_def]
  show "x2 - x1 \<noteq> 0" using out other by simp
  have X: "X = pt (x1, y1) (x2, y2) s"
    using sp(3) by (simp add: X_def pt_def s_def)
  have bound: "s \<le> t" if "inside r (pt (x1, y1) (x2, y2) t)" for t
    using that by (intro sp(4)) (simp add: inside_def r pt_def)
  show "inside r p \<Longrightarrow> on_segment X (x2, y2) p \<longleftrightarrow> on_segment (x1, y1) (x2, y2) p"
    unfolding X using sp(1,2) bound by (rule clip_a)
  have f: "fst X = rx" by (simp add: X_def)
  show "outside_count r X (x2, y2) < outside_count r (x1, y1) (x2, y2)"
    using pt_between(3) [OF sp(1,2), of "(x1, y1)" "(x2, y2)" ry, folded X]
      pt_between(4) [OF sp(1,2), of "ry + rh" "(x1, y1)" "(x2, y2)", folded X]
      out other dims f
    by (auto simp: outside_count_def r of_bool_def)
qed

lemma clip_left_b:
  fixes r :: frame
  assumes dims: "0 \<le> rw" "0 \<le> rh" and r: "r = (rx, ry, rw, rh)"
    and out: "x2 < rx" and other: "x1 \<ge> rx"
    and X_def: "X = (rx, y1 + (y2 - y1) * (rx - x1) / (x2 - x1))"
  shows "x2 - x1 \<noteq> 0"
    and "inside r p \<Longrightarrow> on_segment (x1, y1) X p \<longleftrightarrow> on_segment (x1, y1) (x2, y2) p"
    and "outside_count r (x1, y1) X < outside_count r (x1, y1) (x2, y2)"
proof -
  define s where "s = (rx - x1) / (x2 - x1)"
  note sp = step_param_b_low [OF out other, folded s_def]
  show "x2 - x1 \<noteq> 0" using out other by simp
  have X: "X = pt (x1, y1) (x2, y2) s"
    using sp(3) by (simp add: X_def pt_def s_def)
  have bound: "t \<le> s" if "inside r (pt (x1, y1) (x2, y2) t)" for t
    using that by (intro sp(4)) (simp add: inside_def r pt_def)
  show "inside r p \<Longrightarrow> on_segment (x1, y1) X p \<longleftrightarrow> on_segment (x1, y1) (x2, y2) p"
    unfolding X using sp(1,2) bound by (rule clip_b)
  have f: "fst X = rx" by (simp add: X_def)
  show "outside_count r (x1, y1) X < outside_count r (x1, y1) (x2, y2)"
    using pt_between(3) [OF sp(1,2), of "(x1, y1)" "(x2, y2)" ry, folded X]
      pt_between(4) [OF sp(1,2), of "ry + rh" "(x1, y1)" "(x2, y2)", folded X]
      out other dims f
    by (auto simp: outside_count_def r of_bool_def)
qed

lemma clip_step_a:
  fixes r :: frame
  assumes dims: "0 \<le> rw" "0 \<le> rh" and r: "r = (rx, ry, rw, rh)"
    and c1: "c1 = compute_code r x1 y1" and c2: "c2 = compute_code r x2 y2"
    and nz: "c1 \<noteq> 0" and nocommon: "c1 AND c2 = 0"
  obtains x y where "intersection r x1 y1 x2 y2 c1 = Inr (x, y)"
    and "\<forall>p. inside r p \<longrightarrow> (on_segment (x, y) (x2, y2) p \<longleftrightarrow> on_segment (x1, y1) (x2, y2) p)"
    and "outside_count r (x, y) (x2, y2) < outside_count r (x1, y1) (x2, y2)"
proof -
  from nocommon have common:
    "\<not> (x1 < rx \<and> x2 < rx)"
    "\<not> (\<not> x1 < rx \<and> x1 > rx + rw \<and> \<not> x2 < rx \<and> x2 > rx + rw)"
    "\<not> (y1 < ry \<and> y2 < ry)"
    "\<not> (\<not> y1 < ry \<and> y1 > ry + rh \<and> \<not> y2 < ry \<and> y2 > ry + rh)"
    using code_common [of rx ry rw rh x1 y1 x2 y2] by (auto simp: c1 c2 r)
  consider
      (TOP) "c1 AND TOP \<noteq> 0"
    | (BOTTOM) "c1 AND TOP = 0" "c1 AND BOTTOM \<noteq> 0"
    | (RIGHT) "c1 AND TOP = 0" "c1 AND BOTTOM = 0" "c1 AND RIGHT \<noteq> 0"
    | (LEFT) "c1 AND TOP = 0" "c1 AND BOTTOM = 0" "c1 AND RIGHT = 0" "c1 AND LEFT \<noteq> 0"
    | (NONE) "c1 AND TOP = 0" "c1 AND BOTTOM = 0" "c1 AND RIGHT = 0" "c1 AND LEFT = 0"
    by blast
  then show ?thesis
  proof cases
    case TOP
    have out: "y1 > ry + rh" using TOP by (simp add: c1 r code_bits)
    have other: "y2 \<le> ry + rh" using out common dims by auto
    note L = clip_top_a [OF dims r out other refl]
    have i: "intersection r x1 y1 x2 y2 c1 = Inr (x1 + (x2 - x1) * (ry + rh - y1) / (y2 - y1), ry + rh)"
      using TOP L(1) by (simp add: intersection_def r)
    show ?thesis
    proof (rule that [OF i])
      show "\<forall>p. inside r p \<longrightarrow> (on_segment (x1 + (x2 - x1) * (ry + rh - y1) / (y2 - y1), ry + rh) (x2, y2) p \<longleftrightarrow> on_segment (x1, y1) (x2, y2) p)"
        using L(2) by blast
      show "outside_count r (x1 + (x2 - x1) * (ry + rh - y1) / (y2 - y1), ry + rh) (x2, y2) < outside_count r (x1, y1) (x2, y2)"
        by (rule L(3))
    qed
  next
    case BOTTOM
    have out: "y1 < ry" using BOTTOM(2) by (simp add: c1 r code_bits)
    have other: "y2 \<ge> ry" using out common dims by auto
    note L = clip_bottom_a [OF dims r out other refl]
    have i: "intersection r x1 y1 x2 y2 c1 = Inr (x1 + (x2 - x1) * (ry - y1) / (y2 - y1), ry)"
      using BOTTOM L(1) by (simp add: intersection_def r)
    show ?thesis
    proof (rule that [OF i])
      show "\<forall>p. inside r p \<longrightarrow> (on_segment (x1 + (x2 - x1) * (ry - y1) / (y2 - y1), ry) (x2, y2) p \<longleftrightarrow> on_segment (x1, y1) (x2, y2) p)"
        using L(2) by blast
      show "outside_count r (x1 + (x2 - x1) * (ry - y1) / (y2 - y1), ry) (x2, y2) < outside_count r (x1, y1) (x2, y2)"
        by (rule L(3))
    qed
  next
    case RIGHT
    have out: "x1 > rx + rw" using RIGHT(3) by (simp add: c1 r code_bits)
    have other: "x2 \<le> rx + rw" using out common dims by auto
    note L = clip_right_a [OF dims r out other refl]
    have i: "intersection r x1 y1 x2 y2 c1 = Inr (rx + rw, y1 + (y2 - y1) * (rx + rw - x1) / (x2 - x1))"
      using RIGHT L(1) by (simp add: intersection_def r)
    show ?thesis
    proof (rule that [OF i])
      show "\<forall>p. inside r p \<longrightarrow> (on_segment (rx + rw, y1 + (y2 - y1) * (rx + rw - x1) / (x2 - x1)) (x2, y2) p \<longleftrightarrow> on_segment (x1, y1) (x2, y2) p)"
        using L(2) by blast
      show "outside_count r (rx + rw, y1 + (y2 - y1) * (rx + rw - x1) / (x2 - x1)) (x2, y2) < outside_count r (x1, y1) (x2, y2)"
        by (rule L(3))
    qed
  next
    case LEFT
    have out: "x1 < rx" using LEFT(4) by (simp add: c1 r code_bits)
    have other: "x2 \<ge> rx" using out common dims by auto
    note L = clip_left_a [OF dims r out other refl]
    have i: "intersection r x1 y1 x2 y2 c1 = Inr (rx, y1 + (y2 - y1) * (rx - x1) / (x2 - x1))"
      using LEFT L(1) by (simp add: intersection_def r)
    show ?thesis
    proof (rule that [OF i])
      show "\<forall>p. inside r p \<longrightarrow> (on_segment (rx, y1 + (y2 - y1) * (rx - x1) / (x2 - x1)) (x2, y2) p \<longleftrightarrow> on_segment (x1, y1) (x2, y2) p)"
        using L(2) by blast
      show "outside_count r (rx, y1 + (y2 - y1) * (rx - x1) / (x2 - x1)) (x2, y2) < outside_count r (x1, y1) (x2, y2)"
        by (rule L(3))
    qed
  next
    case NONE
    then have "c1 = 0"
      using code_bits [of rx ry rw rh x1 y1] code_zero [of rx ry rw rh x1 y1]
      by (simp add: c1 r)
    with nz show ?thesis by simp
  qed
qed

lemma clip_step_b:
  fixes r :: frame
  assumes dims: "0 \<le> rw" "0 \<le> rh" and r: "r = (rx, ry, rw, rh)"
    and c1: "c1 = compute_code r x1 y1" and c2: "c2 = compute_code r x2 y2"
    and nz: "c2 \<noteq> 0" and nocommon: "c1 AND c2 = 0"
  obtains x y where "intersection r x1 y1 x2 y2 c2 = Inr (x, y)"
    and "\<forall>p. inside r p \<longrightarrow> (on_segment (x1, y1) (x, y) p \<longleftrightarrow> on_segment (x1, y1) (x2, y2) p)"
    and "outside_count r (x1, y1) (x, y) < outside_count r (x1, y1) (x2, y2)"
proof -
  from nocommon have common:
    "\<not> (x1 < rx \<and> x2 < rx)"
    "\<not> (\<not> x1 < rx \<and> x1 > rx + rw \<and> \<not> x2 < rx \<and> x2 > rx + rw)"
    "\<not> (y1 < ry \<and> y2 < ry)"
    "\<not> (\<not> y1 < ry \<and> y1 > ry + rh \<and> \<not> y2 < ry \<and> y2 > ry + rh)"
    using code_common [of rx ry rw rh x1 y1 x2 y2] by (auto simp: c1 c2 r)
  consider
      (TOP) "c2 AND TOP \<noteq> 0"
    | (BOTTOM) "c2 AND TOP = 0" "c2 AND BOTTOM \<noteq> 0"
    | (RIGHT) "c2 AND TOP = 0" "c2 AND BOTTOM = 0" "c2 AND RIGHT \<noteq> 0"
    | (LEFT) "c2 AND TOP = 0" "c2 AND BOTTOM = 0" "c2 AND RIGHT = 0" "c2 AND LEFT \<noteq> 0"
    | (NONE) "c2 AND TOP = 0" "c2 AND BOTTOM = 0" "c2 AND RIGHT = 0" "c2 AND LEFT = 0"
    by blast
  then show ?thesis
  proof cases
    case TOP
    have out: "y2 > ry + rh" using TOP by (simp add: c2 r code_bits)
    have other: "y1 \<le> ry + rh" using out common dims by auto
    note L = clip_top_b [OF dims r out other refl]
    have i: "intersection r x1 y1 x2 y2 c2 = Inr (x1 + (x2 - x1) * (ry + rh - y1) / (y2 - y1), ry + rh)"
      using TOP L(1) by (simp add: intersection_def r)
    show ?thesis
    proof (rule that [OF i])
      show "\<forall>p. inside r p \<longrightarrow> (on_segment (x1, y1) (x1 + (x2 - x1) * (ry + rh - y1) / (y2 - y1), ry + rh) p \<longleftrightarrow> on_segment (x1, y1) (x2, y2) p)"
        using L(2) by blast
      show "outside_count r (x1, y1) (x1 + (x2 - x1) * (ry + rh - y1) / (y2 - y1), ry + rh) < outside_count r (x1, y1) (x2, y2)"
        by (rule L(3))
    qed
  next
    case BOTTOM
    have out: "y2 < ry" using BOTTOM(2) by (simp add: c2 r code_bits)
    have other: "y1 \<ge> ry" using out common dims by auto
    note L = clip_bottom_b [OF dims r out other refl]
    have i: "intersection r x1 y1 x2 y2 c2 = Inr (x1 + (x2 - x1) * (ry - y1) / (y2 - y1), ry)"
      using BOTTOM L(1) by (simp add: intersection_def r)
    show ?thesis
    proof (rule that [OF i])
      show "\<forall>p. inside r p \<longrightarrow> (on_segment (x1, y1) (x1 + (x2 - x1) * (ry - y1) / (y2 - y1), ry) p \<longleftrightarrow> on_segment (x1, y1) (x2, y2) p)"
        using L(2) by blast
      show "outside_count r (x1, y1) (x1 + (x2 - x1) * (ry - y1) / (y2 - y1), ry) < outside_count r (x1, y1) (x2, y2)"
        by (rule L(3))
    qed
  next
    case RIGHT
    have out: "x2 > rx + rw" using RIGHT(3) by (simp add: c2 r code_bits)
    have other: "x1 \<le> rx + rw" using out common dims by auto
    note L = clip_right_b [OF dims r out other refl]
    have i: "intersection r x1 y1 x2 y2 c2 = Inr (rx + rw, y1 + (y2 - y1) * (rx + rw - x1) / (x2 - x1))"
      using RIGHT L(1) by (simp add: intersection_def r)
    show ?thesis
    proof (rule that [OF i])
      show "\<forall>p. inside r p \<longrightarrow> (on_segment (x1, y1) (rx + rw, y1 + (y2 - y1) * (rx + rw - x1) / (x2 - x1)) p \<longleftrightarrow> on_segment (x1, y1) (x2, y2) p)"
        using L(2) by blast
      show "outside_count r (x1, y1) (rx + rw, y1 + (y2 - y1) * (rx + rw - x1) / (x2 - x1)) < outside_count r (x1, y1) (x2, y2)"
        by (rule L(3))
    qed
  next
    case LEFT
    have out: "x2 < rx" using LEFT(4) by (simp add: c2 r code_bits)
    have other: "x1 \<ge> rx" using out common dims by auto
    note L = clip_left_b [OF dims r out other refl]
    have i: "intersection r x1 y1 x2 y2 c2 = Inr (rx, y1 + (y2 - y1) * (rx - x1) / (x2 - x1))"
      using LEFT L(1) by (simp add: intersection_def r)
    show ?thesis
    proof (rule that [OF i])
      show "\<forall>p. inside r p \<longrightarrow> (on_segment (x1, y1) (rx, y1 + (y2 - y1) * (rx - x1) / (x2 - x1)) p \<longleftrightarrow> on_segment (x1, y1) (x2, y2) p)"
        using L(2) by blast
      show "outside_count r (x1, y1) (rx, y1 + (y2 - y1) * (rx - x1) / (x2 - x1)) < outside_count r (x1, y1) (x2, y2)"
        by (rule L(3))
    qed
  next
    case NONE
    then have "c2 = 0"
      using code_bits [of rx ry rw rh x2 y2] code_zero [of rx ry rw rh x2 y2]
      by (simp add: c2 r)
    with nz show ?thesis by simp
  qed
qed

lemma clip_spec_transfer:
  assumes "\<forall>p. inside r p \<longrightarrow> (on_segment a' b' p \<longleftrightarrow> on_segment a b p)"
    and "clip_spec r a' b' res"
  shows "clip_spec r a b res"
proof (cases res)
  case None
  with assms show ?thesis by (auto simp: clip_spec_def)
next
  case (Some q)
  obtain q1 q2 where q: "q = (q1, q2)" by (cases q) auto
  from assms(2) have i: "inside r q1" "inside r q2"
    and e: "\<And>p. on_segment q1 q2 p \<longleftrightarrow> on_segment a' b' p \<and> inside r p"
    by (auto simp: clip_spec_def Some q)
  have "on_segment q1 q2 p \<longleftrightarrow> on_segment a b p \<and> inside r p" for p
    using e [of p] assms(1) by blast
  with i show ?thesis by (simp add: clip_spec_def Some q)
qed

lemma clip_loop_accept:
  "c1 = 0 \<Longrightarrow> c2 = 0 \<Longrightarrow> clip_loop r x1 y1 c1 x2 y2 c2 = Some (Inr (Some ((x1, y1), (x2, y2))))"
  by (subst clip_loop.simps) simp

lemma clip_loop_reject:
  "c1 AND c2 \<noteq> 0 \<Longrightarrow> clip_loop r x1 y1 c1 x2 y2 c2 = Some (Inr None)"
  by (subst clip_loop.simps) auto

lemma clip_loop_replace_first:
  assumes "c1 \<noteq> 0" "c1 AND c2 = 0" "intersection r x1 y1 x2 y2 c1 = Inr (x, y)"
  shows "clip_loop r x1 y1 c1 x2 y2 c2 = clip_loop r x y (compute_code r x y) x2 y2 c2"
  using assms by (subst clip_loop.simps) (simp add: Let_def)

lemma clip_loop_replace_second:
  assumes "c1 = 0" "c2 \<noteq> 0" "c1 AND c2 = 0" "intersection r x1 y1 x2 y2 c2 = Inr (x, y)"
  shows "clip_loop r x1 y1 c1 x2 y2 c2 = clip_loop r x1 y1 c1 x y (compute_code r x y)"
  using assms by (subst clip_loop.simps) (simp add: Let_def)

lemma clip_loop_correct:
  fixes r :: frame
  assumes dims: "0 \<le> rw" "0 \<le> rh" and r: "r = (rx, ry, rw, rh)"
  shows "\<exists>res. clip_loop r x1 y1 (compute_code r x1 y1) x2 y2 (compute_code r x2 y2)
                 = Some (Inr res)
               \<and> clip_spec r (x1, y1) (x2, y2) res"
proof (induction "outside_count r (x1, y1) (x2, y2)" arbitrary: x1 y1 x2 y2 rule: less_induct)
  case less
  let ?c1 = "compute_code r x1 y1" and ?c2 = "compute_code r x2 y2"
  consider (accept) "?c1 = 0" "?c2 = 0"
    | (reject) "?c1 AND ?c2 \<noteq> 0"
    | (first) "?c1 \<noteq> 0" "?c1 AND ?c2 = 0"
    | (second) "?c1 = 0" "?c2 \<noteq> 0" "?c1 AND ?c2 = 0"
    by blast
  then show ?case
  proof cases
    case accept
    then have i: "inside r (x1, y1)" "inside r (x2, y2)"
      using code_zero [of rx ry rw rh] by (auto simp: r inside_def)
    then have "clip_spec r (x1, y1) (x2, y2) (Some ((x1, y1), (x2, y2)))"
      using inside_convex [OF i] by (auto simp: clip_spec_def)
    with accept show ?thesis by (simp add: clip_loop_accept)
  next
    case reject
    have "\<not> inside r p" if "on_segment (x1, y1) (x2, y2) p" for p
    proof -
      from that obtain t where t: "0 \<le> t" "t \<le> 1" "p = pt (x1, y1) (x2, y2) t"
        by (auto simp: on_segment_def)
      from reject have
        "(x1 < rx \<and> x2 < rx) \<or> (x1 > rx + rw \<and> x2 > rx + rw)
          \<or> (y1 < ry \<and> y2 < ry) \<or> (y1 > ry + rh \<and> y2 > ry + rh)"
        using code_common [of rx ry rw rh x1 y1 x2 y2] by (auto simp: r)
      then show ?thesis
        using convex_upper [OF t(1,2), of x1 "max x1 x2" x2]
          convex_lower [OF t(1,2), of "min x1 x2" x1 x2]
          convex_upper [OF t(1,2), of y1 "max y1 y2" y2]
          convex_lower [OF t(1,2), of "min y1 y2" y1 y2]
        by (auto simp: inside_def r t(3) pt_def)
    qed
    then have "clip_spec r (x1, y1) (x2, y2) None" by (simp add: clip_spec_def)
    with reject show ?thesis by (simp add: clip_loop_reject)
  next
    case first
    from clip_step_a [OF dims r refl refl first] obtain x y where
      i: "intersection r x1 y1 x2 y2 ?c1 = Inr (x, y)"
      and e: "\<forall>p. inside r p \<longrightarrow> (on_segment (x, y) (x2, y2) p \<longleftrightarrow> on_segment (x1, y1) (x2, y2) p)"
      and m: "outside_count r (x, y) (x2, y2) < outside_count r (x1, y1) (x2, y2)"
      by blast
    from less [OF m] obtain res where
      "clip_loop r x y (compute_code r x y) x2 y2 ?c2 = Some (Inr res)"
      "clip_spec r (x, y) (x2, y2) res"
      by blast
    with clip_loop_replace_first [OF first i] clip_spec_transfer [OF e]
    show ?thesis by auto
  next
    case second
    from clip_step_b [OF dims r refl refl second(2,3)] obtain x y where
      i: "intersection r x1 y1 x2 y2 ?c2 = Inr (x, y)"
      and e: "\<forall>p. inside r p \<longrightarrow> (on_segment (x1, y1) (x, y) p \<longleftrightarrow> on_segment (x1, y1) (x2, y2) p)"
      and m: "outside_count r (x1, y1) (x, y) < outside_count r (x1, y1) (x2, y2)"
      by blast
    from less [OF m] obtain res where
      "clip_loop r x1 y1 ?c1 x y (compute_code r x y) = Some (Inr res)"
      "clip_spec r (x1, y1) (x, y) res"
      by blast
    with clip_loop_replace_second [OF second i] clip_spec_transfer [OF e]
    show ?thesis by auto
  qed
qed

lemma inside_code_zero: "inside rect (x, y) \<longleftrightarrow> compute_code rect x y = 0"
proof -
  obtain rx ry rw rh where r: "rect = (rx, ry, rw, rh)" by (cases rect) auto
  show ?thesis
    using code_zero [of rx ry rw rh x y] by (auto simp: r inside_def)
qed

text \<open>
  C1. Clipping the segment from \<open>(x1, y1)\<close> to \<open>(x2, y2)\<close>: when both endpoints are
  inside the rectangle the segment is returned unchanged; when both endpoints lie beyond
  the same side nothing is returned; and for every rectangle of non-negative width and
  height the loop ends without raising, and what it returns is the part of the segment
  inside the rectangle: two endpoints inside the rectangle that span exactly the points
  of the segment that are inside, or nothing when no point of the segment is inside.
\<close>

theorem clip_line_to_rect_correct:
  "(inside rect (x1, y1) \<and> inside rect (x2, y2) \<longrightarrow>
      clip_line_to_rect (x1, y1) (x2, y2) rect = Some (Inr (Some ((x1, y1), (x2, y2)))))
   \<and> (compute_code rect x1 y1 AND compute_code rect x2 y2 \<noteq> 0 \<longrightarrow>
      clip_line_to_rect (x1, y1) (x2, y2) rect = Some (Inr None))
   \<and> (rect = (rx, ry, rw, rh) \<and> ((x1 < rx \<and> x2 < rx) \<or> (y1 < ry \<and> y2 < ry)) \<longrightarrow>
      clip_line_to_rect (x1, y1) (x2, y2) rect = Some (Inr None))
   \<and> (rect = (rx, ry, rw, rh) \<and> 0 \<le> rw \<and> 0 \<le> rh
        \<and> ((x1 > rx + rw \<and> x2 > rx + rw) \<or> (y1 > ry + rh \<and> y2 > ry + rh)) \<longrightarrow>
      clip_line_to_rect (x1, y1) (x2, y2) rect = Some (Inr None))
   \<and> (rect = (rx, ry, rw, rh) \<and> 0 \<le> rw \<and> 0 \<le> rh \<longrightarrow>
      (\<exists>res. clip_line_to_rect (x1, y1) (x2, y2) rect = Some (Inr res)
            \<and> clip_spec rect (x1, y1) (x2, y2) res))"
proof (intro conjI impI)
  assume "inside rect (x1, y1) \<and> inside rect (x2, y2)"
  then show "clip_line_to_rect (x1, y1) (x2, y2) rect = Some (Inr (Some ((x1, y1), (x2, y2))))"
    by (simp add: clip_line_to_rect_def inside_code_zero clip_loop_accept)
next
  assume "compute_code rect x1 y1 AND compute_code rect x2 y2 \<noteq> 0"
  then show "clip_line_to_rect (x1, y1) (x2, y2) rect = Some (Inr None)"
    by (simp add: clip_line_to_rect_def clip_loop_reject)
next
  assume "rect = (rx, ry, rw, rh) \<and> ((x1 < rx \<and> x2 < rx) \<or> (y1 < ry \<and> y2 < ry))"
  then have "compute_code rect x1 y1 AND compute_code rect x2 y2 \<noteq> 0"
    using code_common [of rx ry rw rh x1 y1 x2 y2] by auto
  then show "clip_line_to_rect (x1, y1) (x2, y2) rect = Some (Inr None)"
    by (simp add: clip_line_to_rect_def clip_loop_reject)
next
  assume "rect = (rx, ry, rw, rh) \<and> 0 \<le> rw \<and> 0 \<le> rh
        \<and> ((x1 > rx + rw \<and> x2 > rx + rw) \<or> (y1 > ry + rh \<and> y2 > ry + rh))"
  then have "compute_code rect x1 y1 AND compute_code rect x2 y2 \<noteq> 0"
    using code_common [of rx ry rw rh x1 y1 x2 y2] by auto
  then show "clip_line_to_rect (x1, y1) (x2, y2) rect = Some (Inr None)"
    by (simp add: clip_line_to_rect_def clip_loop_reject)
next
  assume "rect = (rx, ry, rw, rh) \<and> 0 \<le> rw \<and> 0 \<le> rh"
  then have "\<exists>res. clip_loop rect x1 y1 (compute_code rect x1 y1) x2 y2 (compute_code rect x2 y2)
                 = Some (Inr res)
               \<and> clip_spec rect (x1, y1) (x2, y2) res"
    by (intro clip_loop_correct [of rw rh rect rx ry]) simp_all
  then show "\<exists>res. clip_line_to_rect (x1, y1) (x2, y2) rect = Some (Inr res)
            \<and> clip_spec rect (x1, y1) (x2, y2) res"
    by (simp add: clip_line_to_rect_def)
qed

theorem clip_line_to_rect_correct_witness:
  "clip_line_to_rect (10, 10) (90, 90) (0, 0, 100, 100) = Some (Inr (Some ((10, 10), (90, 90))))
   \<and> clip_line_to_rect (- 50, 50) (150, 50) (0, 0, 100, 100)
       = Some (Inr (Some ((0, 50), (100, 50))))
   \<and> clip_spec (0, 0, 100, 100) (- 50, 50) (150, 50) (Some ((0, 50), (100, 50)))
   \<and> clip_line_to_rect (- 10, - 10) (- 5, - 5) (0, 0, 100, 100) = Some (Inr None)"
proof -
  note t = clip_line_to_rect_correct [where rect = "(0, 0, 100, 100)" and rx = 0 and ry = 0
      and rw = 100 and rh = 100]
  have i: "inside (0, 0, 100, 100) (10, 10) \<and> inside (0, 0, 100, 100) (90, 90)"
    by (simp add: inside_def)
  with t [of 10 10 90 90]
  have a: "clip_line_to_rect (10, 10) (90, 90) (0, 0, 100, 100)
      = Some (Inr (Some ((10, 10), (90, 90))))"
    by blast
  have v: "clip_line_to_rect (- 50, 50) (150, 50) (0, 0, 100, 100)
       = Some (Inr (Some ((0, 50), (100, 50))))"
    by (simp add: clip_line_to_rect_def clip_loop.simps compute_code_def intersection_def
          INSIDE_def LEFT_def RIGHT_def TOP_def BOTTOM_def Let_def)
  from t [of "- 50" 50 150 50] obtain res where
    "clip_line_to_rect (- 50, 50) (150, 50) (0, 0, 100, 100) = Some (Inr res)"
    "clip_spec (0, 0, 100, 100) (- 50, 50) (150, 50) res"
    by auto
  with v have b: "clip_spec (0, 0, 100, 100) (- 50, 50) (150, 50) (Some ((0, 50), (100, 50)))"
    by simp
  from t [of "- 10" "- 10" "- 5" "- 5"]
  have c: "clip_line_to_rect (- 10, - 10) (- 5, - 5) (0, 0, 100, 100) = Some (Inr None)"
    by simp
  from a v b c show ?thesis by blast
qed

end
